theory Spec2Isabelle
  imports Complex_Main "HOL-Library.Log_Nat"
begin

section \<open>The tile Aasen factorization \<open>plasma_pzhetrf_aa\<close> (compute/pzhetrf_aa.c)\<close>

text \<open>
  The routine is an orchestrator: for every tile column \<open>k\<close> it submits a fixed sequence of
  tile kernels (\<open>core_omp_zgemm\<close>, \<open>core_omp_zgeadd\<close>, ...) and runs a few loops of its
  own. The embedding has two layers.

  \<^item> The \<^emph>\<open>task layer\<close> is the routine as written: every kernel call of the source is one
    value of the datatype \<open>task\<close>, with all its arguments in the order of the C call, and
    every loop of the source is a list comprehension or a recursive function. The macros
    \<open>A\<close>, \<open>T\<close>, \<open>L\<close>, \<open>W\<close>, \<open>W2\<close>, \<open>W3\<close>, \<open>W4\<close>, \<open>H\<close> become functions
    that compute tile coordinates.
  \<^item> The \<^emph>\<open>value layer\<close> runs a task list on a store that maps every tile to a value of a
    ring. The kernels are not part of the sources; their meaning is modelled from the
    specification (section 6, ``multiply-accumulate, ..., tile copy/add'') and stated where
    they are defined below.

  Tile and loop indices are natural numbers: the source only forms \<open>m-1\<close>, \<open>k-1\<close> under
  guards that make them non-negative. \<open>tot = W.mt - 3*A.mt\<close> can be negative and is an
  \<open>int\<close>. C \<open>int\<close> overflow is not modelled.
\<close>

subsection \<open>Enumerations, descriptors, context\<close>

datatype plasma_enum =
    PlasmaNoTrans | PlasmaConjTrans
  | PlasmaUpper | PlasmaLower
  | PlasmaLeft | PlasmaRight
  | PlasmaUnit | PlasmaNonUnit
  | PlasmaRowwise

text \<open>The fields of \<open>plasma_desc_t\<close> that the routine reads: matrix size \<open>m\<close>, \<open>n\<close>,
  tile size \<open>mb\<close>, \<open>nb\<close>, and tile counts \<open>mt\<close>, \<open>nt\<close>.\<close>

record plasma_desc =
  d_m :: nat
  d_n :: nat
  d_mb :: nat
  d_nb :: nat
  d_mt :: nat
  d_nt :: nat

text \<open>The fields of \<open>plasma_context_t\<close> that the routine reads.\<close>

record plasma_context =
  ctx_ib :: nat
  ctx_num_panel_threads :: nat
  ctx_max_threads :: nat

definition imin :: "int \<Rightarrow> int \<Rightarrow> int" where
  "imin a b = (if a < b then a else b)"

text \<open>C99 integer division truncates toward zero.\<close>

definition c_div :: "int \<Rightarrow> int \<Rightarrow> int" where
  "c_div a b = (if (a < 0) = (b < 0) then \<bar>a\<bar> div \<bar>b\<bar> else - (\<bar>a\<bar> div \<bar>b\<bar>))"

text \<open>
  Modelled from the spec: \<open>plasma_tile_mview\<close>, \<open>plasma_tile_nview\<close>,
  \<open>plasma_tile_mmain\<close> and \<open>plasma_tile_nmain\<close> are declared in a header that is not
  part of the sources. Section 6 of the specification describes them as returning ``the
  boundary-adjusted dimensions of a possibly-partial tile''; section 3 says that all tiles
  have the block size except the last row and column of tiles, which may be smaller.
\<close>

definition plasma_tile_mview :: "plasma_desc \<Rightarrow> nat \<Rightarrow> nat" where
  "plasma_tile_mview A k = min (d_mb A) (d_m A - k * d_mb A)"

definition plasma_tile_nview :: "plasma_desc \<Rightarrow> nat \<Rightarrow> nat" where
  "plasma_tile_nview A k = min (d_nb A) (d_n A - k * d_nb A)"

definition plasma_tile_mmain :: "plasma_desc \<Rightarrow> nat \<Rightarrow> nat" where
  "plasma_tile_mmain A k = min (d_mb A) (d_m A - k * d_mb A)"

definition plasma_tile_nmain :: "plasma_desc \<Rightarrow> nat \<Rightarrow> nat" where
  "plasma_tile_nmain A k = min (d_nb A) (d_n A - k * d_nb A)"

subsection \<open>Tile addresses: the macros of the source\<close>

text \<open>\<open>plasma_tile_addr(X, m, n)\<close> for the three tiled matrices \<open>A\<close>, \<open>T\<close> and \<open>W\<close>.\<close>

datatype tile = TileA nat nat | TileT nat nat | TileW nat nat

definition A_tile :: "nat \<Rightarrow> nat \<Rightarrow> tile" where
  "A_tile m n = TileA m n"

definition T_tile :: "nat \<Rightarrow> nat \<Rightarrow> tile" where
  "T_tile m n = TileT m n"

text \<open>\<open>#define L(m, n) plasma_tile_addr(A, (m), (n)-1)\<close>; every use has \<open>n \<ge> 1\<close>.\<close>

definition L_tile :: "nat \<Rightarrow> nat \<Rightarrow> tile" where
  "L_tile m n = TileA m (n - 1)"

definition W_tile :: "nat \<Rightarrow> tile" where
  "W_tile j = TileW j 0"

definition W2_tile :: "plasma_desc \<Rightarrow> nat \<Rightarrow> tile" where
  "W2_tile A j = TileW (j + d_mt A) 0"

definition W3_tile :: "plasma_desc \<Rightarrow> nat \<Rightarrow> tile" where
  "W3_tile A j = TileW (j + 3 * d_mt A) 0"

definition W4_tile :: "plasma_desc \<Rightarrow> nat \<Rightarrow> tile" where
  "W4_tile A j = TileW (j + 3 * d_mt A) 0"

text \<open>\<open>#define H(m,n) (uplo == PlasmaLower ? W2((m)) : W2((n)))\<close>\<close>

definition H_tile :: "plasma_enum \<Rightarrow> plasma_desc \<Rightarrow> nat \<Rightarrow> nat \<Rightarrow> tile" where
  "H_tile uplo A m n = (if uplo = PlasmaLower then W2_tile A m else W2_tile A n)"

text \<open>\<open>int tot = W.mt-(3*A.mt);\<close>\<close>

definition tot :: "plasma_desc \<Rightarrow> plasma_desc \<Rightarrow> int" where
  "tot A W = int (d_mt W) - 3 * int (d_mt A)"

subsection \<open>Tasks\<close>

text \<open>The three scalar constants of the routine.\<close>

datatype coef = zzero | zone | zmone

text \<open>
  One constructor per kernel call of the source, arguments in the order of the C call
  (without \<open>sequence\<close> and \<open>request\<close>). The loops that the routine runs itself, between
  \<open>#pragma omp taskwait\<close>s, are tasks as well:
  \<^item> \<open>expand_full t mvak ld\<close>: \<open>t[i+j*ld] = conj(t[j+i*ld])\<close> for \<open>i < j < mvak\<close>
    (lines 168--172 and 201--205);
  \<^item> \<open>conj_transpose dst ld src lds mvakp1 mvak\<close>: \<open>dst[i+j*ld] = conj(src[j+i*lds])\<close>
    for \<open>j < mvakp1\<close>, \<open>i < mvak\<close> (lines 466--470);
  \<^item> \<open>ipiv_shift k1 cnt tempi\<close>: \<open>IPIV(k1)[i] += tempi\<close> for \<open>i < cnt\<close> (lines 364--366);
  \<^item> \<open>core_zgetrf tempi tempj tempm mvak k1 ib num_panel_threads\<close>: the panel task of
    lines 339--362, which calls \<open>core_zgetrf\<close> on the view
    \<open>plasma_desc_view(A, tempi, tempj, tempm, mvak)\<close> with pivots \<open>IPIV(k1)\<close>, once per rank;
  \<^item> \<open>core_zlaswp colrow i j m n k1 k2 incx\<close>: the row interchange
    \<open>core_zlaswp(colrow, view, k1, k2, ipiv, incx)\<close> on the view
    \<open>plasma_desc_view(A, i, j, m, n)\<close>;
  \<^item> \<open>core_omp_zlaswp_sym uplo k1 k2 incx\<close>: the symmetric interchange
    \<open>core_omp_zlaswp_sym(uplo, A, k1, k2, ipiv, incx)\<close>.
\<close>

datatype task =
    core_omp_zgemm plasma_enum plasma_enum nat nat nat coef tile nat tile nat coef tile nat
  | core_omp_zgeadd plasma_enum nat nat coef tile nat coef tile nat
  | core_omp_zlacpy plasma_enum nat nat tile nat tile nat
  | core_omp_zhegst nat plasma_enum nat tile nat tile nat
  | core_omp_zlaset plasma_enum nat nat nat nat nat nat coef coef tile
  | core_omp_ztrsm plasma_enum plasma_enum plasma_enum plasma_enum nat nat coef tile nat tile nat
  | core_omp_zpotrf plasma_enum nat tile nat nat
  | core_omp_zherk plasma_enum plasma_enum nat nat coef tile nat coef tile nat
  | core_zgetrf nat nat nat nat nat nat nat
  | core_zlaswp plasma_enum nat nat nat nat nat nat nat
  | core_omp_zlaswp_sym plasma_enum nat nat nat
  | ipiv_shift nat nat nat
  | expand_full tile nat nat
  | conj_transpose tile nat tile nat nat nat
  | omp_taskwait

text \<open>
  Where the C program divides by zero or converts a NaN to \<open>int\<close> its behaviour is
  undefined; the model returns a fault there.
\<close>

datatype fault = Div_by_zero | NaN_to_int

subsection \<open>The tournament reduction (lines 130--148 and 272--294)\<close>

text \<open>
  \<open>int num_rounds = ceil( log10((double)num_players)/log10(2.0) );\<close>
  The model takes the exact value \<open>\<lceil>log\<^sub>2 num_players\<rceil>\<close> (\<open>ceillog2\<close> of the library, which
  is \<open>0\<close> at \<open>0\<close>). Two remarks on the floating-point expression: a rounding error in the
  quotient can only add a round, never drop one, and lemma \<open>tournament_extra_round\<close> below
  shows that an extra round submits nothing; at \<open>num_players = 0\<close> the C conversion of
  \<open>-\<infinity>\<close> is undefined, but whatever number of rounds results, no round submits a task
  (lemma \<open>tournament_no_players\<close>).
\<close>

definition num_rounds :: "nat \<Rightarrow> nat" where
  "num_rounds num_players = ceillog2 num_players"

text \<open>
  The loop \<open>for (round = 1; round <= num_rounds; round++)\<close>. The first argument counts the
  rounds still to run; \<open>num_players\<close> and \<open>skip\<close> are the loop's two variables;
  \<open>bracket_tasks m1 m2\<close> is the body of the bracket loop, which differs between the two
  copies of the tournament in the source. \<open>ceil(((double)num_players)/2.0)\<close> is
  \<open>(num_players + 1) div 2\<close>.
\<close>

fun tournament :: "nat \<Rightarrow> nat \<Rightarrow> nat \<Rightarrow> (nat \<Rightarrow> nat \<Rightarrow> task list) \<Rightarrow> task list" where
  "tournament 0 num_players skip bracket_tasks = []"
| "tournament (Suc r) num_players skip bracket_tasks =
     concat (map (\<lambda>bracket. bracket_tasks (skip * bracket) (skip * bracket + skip div 2))
                 [0..<num_players div 2])
     @ tournament r ((num_players + 1) div 2) (2 * skip) bracket_tasks"

subsection \<open>Stage 1: the off-diagonal blocks \<open>H(1:k-1, k)\<close> (lines 77--106)\<close>

definition offdiagonal_H :: "plasma_enum \<Rightarrow> plasma_desc \<Rightarrow> plasma_desc \<Rightarrow> nat \<Rightarrow> nat \<Rightarrow> task list" where
  "offdiagonal_H uplo A T k m =
     (let mvak = plasma_tile_mview A k;
          ldak = plasma_tile_mmain A k;
          mvam = plasma_tile_mview A m;
          ldtm = d_mb T;
          mvamp1 = plasma_tile_mview A (m + 1);
          ldtmp1 = d_mb A
      in [core_omp_zgemm PlasmaNoTrans PlasmaConjTrans mvam mvak mvam
            zone (T_tile m m) ldtm (L_tile k m) ldak
            zzero (H_tile uplo A m k) (d_mb A)]
         @ (if m > 1 then
              [core_omp_zgemm PlasmaNoTrans PlasmaConjTrans mvam mvak (d_mb A)
                 zone (T_tile m (m - 1)) ldtm (L_tile k (m - 1)) ldak
                 zone (H_tile uplo A m k) (d_mb A)]
            else [])
         @ [core_omp_zgemm PlasmaConjTrans PlasmaConjTrans mvam mvak mvamp1
              zone (T_tile (m + 1) m) ldtmp1 (L_tile k (m + 1)) ldak
              zone (H_tile uplo A m k) (d_mb A)])"

definition offdiagonals :: "plasma_enum \<Rightarrow> plasma_desc \<Rightarrow> plasma_desc \<Rightarrow> nat \<Rightarrow> task list" where
  "offdiagonals uplo A T k = concat (map (offdiagonal_H uplo A T k) [1..<k])"

subsection \<open>Stage 2: the diagonal block \<open>T(k, k)\<close> (lines 109--173)\<close>

text \<open>The body of the loop of lines 113--128, for contributor \<open>m\<close> and \<open>num\<close> slots.\<close>

definition diagonal_gemm :: "plasma_enum \<Rightarrow> plasma_desc \<Rightarrow> nat \<Rightarrow> nat \<Rightarrow> nat \<Rightarrow> task" where
  "diagonal_gemm uplo A k num m =
     (let mvak = plasma_tile_mview A k;
          ldak = plasma_tile_mmain A k;
          mvam = plasma_tile_mview A m;
          id = (m - 1) mod num;
          beta = (if m < num + 1 then zzero else zone)
      in core_omp_zgemm PlasmaNoTrans PlasmaNoTrans mvak mvak mvam
           zmone (L_tile k m) ldak (H_tile uplo A m k) (d_mb A)
           beta (W3_tile A id) (d_mb A))"

definition diagonal_accumulate :: "plasma_enum \<Rightarrow> plasma_desc \<Rightarrow> nat \<Rightarrow> nat \<Rightarrow> task list" where
  "diagonal_accumulate uplo A k num = map (diagonal_gemm uplo A k num) [1..<k]"

text \<open>The body of the bracket loop of lines 135--145.\<close>

definition diagonal_bracket :: "plasma_desc \<Rightarrow> nat \<Rightarrow> nat \<Rightarrow> nat \<Rightarrow> task list" where
  "diagonal_bracket A k m1 m2 =
     (let mvak = plasma_tile_mview A k
      in [core_omp_zgeadd PlasmaNoTrans mvak mvak
            zone (W3_tile A m2) (d_mb A)
            zone (W3_tile A m1) (d_mb A)])"

definition diagonal_reduce :: "plasma_desc \<Rightarrow> nat \<Rightarrow> nat \<Rightarrow> task list" where
  "diagonal_reduce A k num = tournament (num_rounds num) num 2 (diagonal_bracket A k)"

text \<open>Lines 149--159: the lower triangle of \<open>A(k,k)\<close> is copied and the reduced sum added.\<close>

definition diagonal_finish :: "plasma_desc \<Rightarrow> plasma_desc \<Rightarrow> nat \<Rightarrow> task list" where
  "diagonal_finish A T k =
     (let mvak = plasma_tile_mview A k;
          ldak = plasma_tile_mmain A k;
          ldtk = d_mb T
      in [core_omp_zlacpy PlasmaLower mvak mvak (A_tile k k) ldak (T_tile k k) ldtk,
          core_omp_zgeadd PlasmaNoTrans mvak mvak
            zone (W3_tile A 0) (d_mb A)
            zone (T_tile k k) ldtk])"

text \<open>Lines 160--173, the branch \<open>k == 0 or 1\<close>.\<close>

definition diagonal_copy :: "plasma_desc \<Rightarrow> plasma_desc \<Rightarrow> nat \<Rightarrow> task list" where
  "diagonal_copy A T k =
     (let mvak = plasma_tile_mview A k;
          ldak = plasma_tile_mmain A k;
          ldtk = d_mb T
      in [core_omp_zlacpy PlasmaLower mvak mvak (A_tile k k) ldak (T_tile k k) ldtk,
          omp_taskwait,
          expand_full (T_tile k k) mvak ldtk])"

text \<open>
  \<open>int num = imin(tot, k-1);\<close> and \<open>int id = (m-1) % num;\<close>: with \<open>num = 0\<close> the first
  iteration divides by zero; with \<open>num < 0\<close> the tournament converts
  \<open>ceil(log10(num)/log10(2))\<close>, a NaN, to \<open>int\<close>. With \<open>num > 0\<close> all operands of \<open>%\<close> are
  non-negative and C's \<open>%\<close> is \<open>mod\<close>.
\<close>

definition diagonal :: "plasma_enum \<Rightarrow> plasma_desc \<Rightarrow> plasma_desc \<Rightarrow> plasma_desc \<Rightarrow> nat \<Rightarrow> fault + task list" where
  "diagonal uplo A T W k =
     (if k > 1 then
        (let num = imin (tot A W) (int k - 1)
         in if num = 0 then Inl Div_by_zero
            else if num < 0 then Inl NaN_to_int
            else Inr (diagonal_accumulate uplo A k (nat num)
                      @ diagonal_reduce A k (nat num)
                      @ diagonal_finish A T k))
      else Inr (diagonal_copy A T k))"

subsection \<open>Stage 3: the symmetric solve with \<open>L(k, k)\<close> (lines 175--206)\<close>

text \<open>Lines 177--190, the two-step multiply chain.\<close>

definition multiply_chain :: "plasma_desc \<Rightarrow> plasma_desc \<Rightarrow> nat \<Rightarrow> task list" where
  "multiply_chain A T k =
     (let mvak = plasma_tile_mview A k;
          ldak = plasma_tile_mmain A k;
          ldtk = d_mb T
      in [core_omp_zgemm PlasmaNoTrans PlasmaNoTrans mvak (d_mb A) mvak
            zone (L_tile k k) ldak (T_tile k (k - 1)) ldtk
            zzero (W_tile 0) (d_mb A),
          core_omp_zgemm PlasmaNoTrans PlasmaConjTrans mvak mvak (d_mb A)
            zmone (W_tile 0) (d_mb A) (L_tile k (k - 1)) ldak
            zone (T_tile k k) ldtk])"

text \<open>Lines 193--205: the reduction under \<open>L(k,k)\<close> and the expansion to a full tile.\<close>

definition congruence_reduction :: "plasma_desc \<Rightarrow> plasma_desc \<Rightarrow> nat \<Rightarrow> task list" where
  "congruence_reduction A T k =
     (let mvak = plasma_tile_mview A k;
          ldak = plasma_tile_mmain A k;
          ldtk = d_mb T
      in [core_omp_zhegst 1 PlasmaLower mvak (T_tile k k) ldtk (L_tile k k) ldak,
          omp_taskwait,
          expand_full (T_tile k k) mvak ldtk])"

definition symmetric_solve :: "plasma_desc \<Rightarrow> plasma_desc \<Rightarrow> nat \<Rightarrow> task list" where
  "symmetric_solve A T k =
     (if k > 0 then
        (if k > 1 then multiply_chain A T k else []) @ congruence_reduction A T k
      else [])"

subsection \<open>Stage 4: \<open>H(k, k)\<close> and the update of column \<open>k+1\<close> of \<open>L\<close> (lines 208--321)\<close>

text \<open>Lines 209--219; the value of \<open>beta\<close> afterwards is \<open>zone\<close> iff \<open>k > 1\<close>.\<close>

definition H_kk_first :: "plasma_enum \<Rightarrow> plasma_desc \<Rightarrow> plasma_desc \<Rightarrow> nat \<Rightarrow> task list" where
  "H_kk_first uplo A T k =
     (let mvak = plasma_tile_mview A k;
          ldak = plasma_tile_mmain A k;
          ldtk = d_mb T
      in if k > 1 then
           [core_omp_zgemm PlasmaNoTrans PlasmaConjTrans mvak mvak (d_nb A)
              zone (T_tile k (k - 1)) ldtk (L_tile k (k - 1)) ldak
              zzero (H_tile uplo A k k) (d_mb A)]
         else [])"

text \<open>Lines 222--230.\<close>

definition H_kk_second :: "plasma_enum \<Rightarrow> plasma_desc \<Rightarrow> plasma_desc \<Rightarrow> nat \<Rightarrow> task list" where
  "H_kk_second uplo A T k =
     (let mvak = plasma_tile_mview A k;
          ldak = plasma_tile_mmain A k;
          ldtk = d_mb T;
          beta = (if k > 1 then zone else zzero)
      in if k > 0 then
           [core_omp_zgemm PlasmaNoTrans PlasmaConjTrans mvak mvak mvak
              zone (T_tile k k) ldtk (L_tile k k) ldak
              beta (H_tile uplo A k k) (d_mb A)]
         else [])"

text \<open>
  The body of the loops of lines 240--270. Both branches of the source's
  \<open>if (n < num+1 || n > k-num)\<close> submit the same call.
\<close>

definition workspace_gemm :: "plasma_enum \<Rightarrow> plasma_desc \<Rightarrow> nat \<Rightarrow> nat \<Rightarrow> nat \<Rightarrow> nat \<Rightarrow> task" where
  "workspace_gemm uplo A k num n m =
     (let mvak = plasma_tile_mview A k;
          mvan = plasma_tile_mview A n;
          mvam = plasma_tile_mview A m;
          ldam = plasma_tile_mmain A m;
          id = (m - k - 1) * num + (n - 1) mod num;
          beta = (if n < num + 1 then zzero else zone)
      in if n < num + 1 \<or> int n > int k - int num then
           core_omp_zgemm PlasmaNoTrans PlasmaNoTrans mvam mvak mvan
             zmone (L_tile m n) ldam (H_tile uplo A n k) (d_mb A)
             beta (W4_tile A id) (d_mb A)
         else
           core_omp_zgemm PlasmaNoTrans PlasmaNoTrans mvam mvak mvan
             zmone (L_tile m n) ldam (H_tile uplo A n k) (d_mb A)
             beta (W4_tile A id) (d_mb A))"

definition workspace_accumulate :: "plasma_enum \<Rightarrow> plasma_desc \<Rightarrow> nat \<Rightarrow> nat \<Rightarrow> task list" where
  "workspace_accumulate uplo A k num =
     concat (map (\<lambda>n. map (workspace_gemm uplo A k num n) [k + 1..<d_mt A]) [1..<k + 1])"

text \<open>The body of the bracket loop of lines 277--291.\<close>

definition workspace_bracket :: "plasma_desc \<Rightarrow> nat \<Rightarrow> nat \<Rightarrow> nat \<Rightarrow> nat \<Rightarrow> task list" where
  "workspace_bracket A k num m1 m2 =
     map (\<lambda>m. let mvak = plasma_tile_mview A k;
                  mvam = plasma_tile_mview A m
              in core_omp_zgeadd PlasmaNoTrans mvam mvak
                   zone (W4_tile A ((m - k - 1) * num + m2)) (d_mb A)
                   zone (W4_tile A ((m - k - 1) * num + m1)) (d_mb A))
         [k + 1..<d_mt A]"

definition workspace_reduce :: "plasma_desc \<Rightarrow> nat \<Rightarrow> nat \<Rightarrow> task list" where
  "workspace_reduce A k num = tournament (num_rounds num) num 2 (workspace_bracket A k num)"

text \<open>Lines 296--305.\<close>

definition workspace_finish :: "plasma_desc \<Rightarrow> nat \<Rightarrow> nat \<Rightarrow> task list" where
  "workspace_finish A k num =
     map (\<lambda>m. let mvak = plasma_tile_mview A k;
                  mvam = plasma_tile_mview A m;
                  ldam = plasma_tile_mmain A m
              in core_omp_zgeadd PlasmaNoTrans mvam mvak
                   zone (W4_tile A ((m - k - 1) * num)) (d_mb A)
                   zone (L_tile m (k + 1)) ldam)
         [k + 1..<d_mt A]"

text \<open>
  The branch \<open>A.mt-k < plasma->max_threads\<close> (lines 239--305), with
  \<open>int num = imin(k, tot/(A.mt-k-1));\<close>. The division faults when \<open>A.mt-k-1 = 0\<close>. When
  \<open>num = 0\<close> and \<open>k \<ge> 1\<close> the first \<open>(n-1)%num\<close> divides by zero; when \<open>num = 0\<close> and
  \<open>k = 0\<close> no loop iteration computes a remainder and the routine goes on (the tournament
  over no players submits nothing, see above). When \<open>num < 0\<close> the tournament converts a
  NaN to \<open>int\<close>.
\<close>

definition update_workspace :: "plasma_enum \<Rightarrow> plasma_desc \<Rightarrow> plasma_desc \<Rightarrow> nat \<Rightarrow> fault + task list" where
  "update_workspace uplo A W k =
     (if d_mt A - k - 1 = 0 then Inl Div_by_zero
      else
        (let num = imin (int k) (c_div (tot A W) (int (d_mt A - k - 1)))
         in if num < 0 then Inl NaN_to_int
            else if num = 0 \<and> k \<ge> 1 then Inl Div_by_zero
            else Inr (workspace_accumulate uplo A k (nat num)
                      @ workspace_reduce A k (nat num)
                      @ workspace_finish A k (nat num))))"

text \<open>The \<open>else\<close> branch (lines 307--320).\<close>

definition direct_gemm :: "plasma_enum \<Rightarrow> plasma_desc \<Rightarrow> nat \<Rightarrow> nat \<Rightarrow> nat \<Rightarrow> task" where
  "direct_gemm uplo A k n m =
     (let mvak = plasma_tile_mview A k;
          mvan = plasma_tile_mview A n;
          mvam = plasma_tile_mview A m;
          ldam = plasma_tile_mmain A m
      in core_omp_zgemm PlasmaNoTrans PlasmaNoTrans mvam mvak mvan
           zmone (L_tile m n) ldam (H_tile uplo A n k) (d_mb A)
           zone (L_tile m (k + 1)) ldam)"

definition update_direct :: "plasma_enum \<Rightarrow> plasma_desc \<Rightarrow> nat \<Rightarrow> task list" where
  "update_direct uplo A k =
     concat (map (\<lambda>n. map (direct_gemm uplo A k n) [k + 1..<d_mt A]) [1..<k + 1])"

definition column_update ::
  "plasma_enum \<Rightarrow> plasma_desc \<Rightarrow> plasma_desc \<Rightarrow> plasma_context \<Rightarrow> nat \<Rightarrow> fault + task list" where
  "column_update uplo A W plasma k =
     (if d_mt A - k < ctx_max_threads plasma then update_workspace uplo A W k
      else Inr (update_direct uplo A k))"

subsection \<open>Stage 5: the panel factorization and the pivoting (lines 322--413)\<close>

text \<open>
  \<open>tempm = A.m - tempi\<close> is positive when \<open>k+1 < A.mt\<close> and the descriptor is consistent
  (\<open>(A.mt - 1) * A.mb < A.m\<close>), so the natural subtraction and \<open>min\<close> below are the C
  subtraction and \<open>imin\<close>.
\<close>

definition panel_factorization :: "plasma_desc \<Rightarrow> plasma_context \<Rightarrow> nat \<Rightarrow> task list" where
  "panel_factorization A plasma k =
     (let mvak = plasma_tile_mview A k;
          tempi = (k + 1) * d_mb A;
          tempj = k * d_nb A;
          tempm = d_m A - tempi
      in [omp_taskwait,
          core_zgetrf tempi tempj tempm mvak (k + 1) (ctx_ib plasma) (ctx_num_panel_threads plasma),
          omp_taskwait,
          ipiv_shift (k + 1) (min tempm mvak) tempi])"

definition apply_pivoting :: "plasma_desc \<Rightarrow> nat \<Rightarrow> task list" where
  "apply_pivoting A k =
     (let mvak = plasma_tile_mview A k;
          tempi = (k + 1) * d_mb A;
          tempm = d_m A - tempi
      in map (\<lambda>n. let k1 = 1 + (k + 1) * d_nb A;
                      k2 = min tempm mvak + (k + 1) * d_nb A;
                      mvan = plasma_tile_mview A n
                  in core_zlaswp PlasmaRowwise 0 ((n - 1) * d_nb A) (d_m A) mvan k1 k2 1)
             [1..<k + 1]
         @ [omp_taskwait,
            core_omp_zlaswp_sym PlasmaLower ((k + 1) * d_mb A + 1)
              ((k + 1) * d_mb A + min tempm mvak) 1])"

subsection \<open>Stage 6: \<open>T(k+1, k)\<close> and its mirror (lines 431--470)\<close>

definition band_finalize :: "plasma_desc \<Rightarrow> plasma_desc \<Rightarrow> nat \<Rightarrow> task list" where
  "band_finalize A T k =
     (let mvak = plasma_tile_mview A k;
          ldak = plasma_tile_mmain A k;
          ldtk = d_mb T;
          ldakp1 = plasma_tile_mmain A (k + 1);
          mvakp1 = plasma_tile_mview A (k + 1);
          ldak_n = plasma_tile_nmain A k;
          ldtkp1 = d_mb A
      in [core_omp_zlacpy PlasmaUpper mvakp1 mvak
            (L_tile (k + 1) (k + 1)) ldakp1 (T_tile (k + 1) k) ldtkp1,
          core_omp_zlaset PlasmaUpper ldakp1 ldak_n 0 0 mvakp1 mvak
            zzero zone (L_tile (k + 1) (k + 1))]
         @ (if k > 0 then
              [core_omp_ztrsm PlasmaRight PlasmaLower PlasmaConjTrans PlasmaUnit mvakp1 mvak
                 zone (L_tile k k) ldak (T_tile (k + 1) k) ldtkp1]
            else [])
         @ [omp_taskwait,
            conj_transpose (T_tile k (k + 1)) ldtk (T_tile (k + 1) k) ldtkp1 mvakp1 mvak])"

subsection \<open>The column loop and the routine\<close>

text \<open>Sequencing of two stages, the second of which is skipped after a fault.\<close>

definition then_tasks :: "fault + task list \<Rightarrow> fault + task list \<Rightarrow> fault + task list" where
  "then_tasks x y =
     (case x of Inl e \<Rightarrow> Inl e
      | Inr ts \<Rightarrow> (case y of Inl e \<Rightarrow> Inl e | Inr us \<Rightarrow> Inr (ts @ us)))"

text \<open>The body of \<open>for (int k = 0; k < A.mt; k++)\<close> in the branch \<open>uplo == PlasmaLower\<close>.\<close>

definition lower_column ::
  "plasma_desc \<Rightarrow> plasma_desc \<Rightarrow> plasma_desc \<Rightarrow> plasma_context \<Rightarrow> nat \<Rightarrow> fault + task list" where
  "lower_column A T W plasma k =
     then_tasks (Inr (offdiagonals PlasmaLower A T k))
    (then_tasks (diagonal PlasmaLower A T W k)
    (then_tasks (Inr (symmetric_solve A T k))
    (then_tasks (Inr (H_kk_first PlasmaLower A T k))
       (if k + 1 < d_nt A then
          then_tasks (Inr (H_kk_second PlasmaLower A T k))
         (then_tasks (column_update PlasmaLower A W plasma k)
         (then_tasks (Inr (panel_factorization A plasma k))
         (then_tasks (Inr (apply_pivoting A k))
                     (Inr (band_finalize A T k)))))
        else Inr []))))"

fun column_loop :: "(nat \<Rightarrow> fault + task list) \<Rightarrow> nat list \<Rightarrow> fault + task list" where
  "column_loop body [] = Inr []"
| "column_loop body (k # ks) = then_tasks (body k) (column_loop body ks)"

text \<open>The body of \<open>for (int k = 0; k < A.nt; k++)\<close> in the branch \<open>PlasmaUpper\<close>.\<close>

definition upper_column :: "plasma_desc \<Rightarrow> nat \<Rightarrow> task list" where
  "upper_column A k =
     (let nvak = plasma_tile_nview A k;
          ldak = plasma_tile_mmain A k
      in [core_omp_zpotrf PlasmaUpper nvak (A_tile k k) ldak (d_nb A * k)]
         @ map (\<lambda>m. let nvam = plasma_tile_nview A m
                    in core_omp_ztrsm PlasmaLeft PlasmaUpper PlasmaConjTrans PlasmaNonUnit
                         (d_nb A) nvam zone (A_tile k k) ldak (A_tile k m) ldak)
               [k + 1..<d_nt A]
         @ concat (map (\<lambda>m. let nvam = plasma_tile_nview A m;
                               ldam = plasma_tile_mmain A m
                           in [core_omp_zherk PlasmaUpper PlasmaConjTrans nvam (d_mb A)
                                 zmone (A_tile k m) ldak zone (A_tile m m) ldam]
                              @ map (\<lambda>n. let ldan = plasma_tile_mmain A n
                                         in core_omp_zgemm PlasmaConjTrans PlasmaNoTrans
                                              (d_mb A) nvam (d_mb A)
                                              zmone (A_tile k n) ldak (A_tile k m) ldak
                                              zone (A_tile n m) ldan)
                                    [k + 1..<m])
                       [k + 1..<d_nt A]))"

definition PlasmaSuccess :: int where
  "PlasmaSuccess = 0"

text \<open>
  The routine: the tasks it submits, in order, given the status of the sequence on entry.
\<close>

definition plasma_pzhetrf_aa ::
  "plasma_enum \<Rightarrow> plasma_desc \<Rightarrow> plasma_desc \<Rightarrow> plasma_desc \<Rightarrow> plasma_context \<Rightarrow> int
     \<Rightarrow> fault + task list" where
  "plasma_pzhetrf_aa uplo A T W plasma status =
     (if status \<noteq> PlasmaSuccess then Inr []
      else if uplo = PlasmaLower then column_loop (lower_column A T W plasma) [0..<d_mt A]
      else Inr (concat (map (upper_column A) [0..<d_nt A])))"

subsection \<open>The tiles a task names\<close>

text \<open>
  The tile arguments of a call. The panel and pivoting kernels take a view of the
  descriptor \<open>A\<close> and the pivot vector, and name no tile of \<open>T\<close> or \<open>W\<close>.
\<close>

fun task_tiles :: "task \<Rightarrow> tile list" where
  "task_tiles (core_omp_zgemm ta tb m n k alpha a lda b ldb beta c ldc) = [a, b, c]"
| "task_tiles (core_omp_zgeadd ta m n alpha a lda beta b ldb) = [a, b]"
| "task_tiles (core_omp_zlacpy uplo m n a lda b ldb) = [a, b]"
| "task_tiles (core_omp_zhegst itype uplo n a lda b ldb) = [a, b]"
| "task_tiles (core_omp_zlaset uplo mb nb i j m n alpha beta a) = [a]"
| "task_tiles (core_omp_ztrsm side uplo ta diag m n alpha a lda b ldb) = [a, b]"
| "task_tiles (core_omp_zpotrf uplo n a lda iinfo) = [a]"
| "task_tiles (core_omp_zherk uplo ta n k alpha a lda beta c ldc) = [a, c]"
| "task_tiles (core_zgetrf tempi tempj tempm mvak k1 ib nthreads) = []"
| "task_tiles (core_zlaswp colrow i j m n k1 k2 incx) = []"
| "task_tiles (core_omp_zlaswp_sym uplo k1 k2 incx) = []"
| "task_tiles (ipiv_shift k1 cnt tempi) = []"
| "task_tiles (expand_full a mvak ld) = [a]"
| "task_tiles (conj_transpose a lda b ldb mvakp1 mvak) = [a, b]"
| "task_tiles omp_taskwait = []"

subsection \<open>The value layer\<close>

text \<open>
  Modelled from the spec: the tile kernels are not part of the sources. Section 1 of the
  specification takes them as ``correct, numerically-standard primitives invoked as black
  boxes'', section 6 lists them: ``multiply-accumulate, triangular solve, symmetric
  congruence reduction, pivoted panel LU, row permutation, tile copy/add''.

  The value of a tile is an element of a ring \<open>'a\<close> (a square block; a partial tile is a
  block padded with zeros), so that in exact arithmetic
  \<^item> \<open>core_omp_zgemm\<close> is \<open>C := alpha * op(A) * op(B) + beta * C\<close>,
  \<^item> \<open>core_omp_zgeadd\<close> is \<open>B := alpha * op(A) + beta * B\<close>,
  with \<open>op(X) = X\<close> for \<open>PlasmaNoTrans\<close> and the conjugate transpose for
  \<open>PlasmaConjTrans\<close>. The dimension and leading-dimension arguments of a call stay in
  the task; they select the live part of the block and do not enter its value.

  Everything else is a parameter, collected in the record \<open>kernels\<close>: the conjugate
  transpose, and one function per remaining kernel, which receives the call's arguments
  and the old values of the tiles it reads and returns the new value of the tile it
  writes. The kernels that work on views and on the pivot vector transform the whole
  store (\<open>k_view\<close>). No theorem below assumes anything about these parameters.
\<close>

record 'a kernels =
  k_conj :: "'a \<Rightarrow> 'a"
  k_zlacpy :: "plasma_enum \<Rightarrow> nat \<Rightarrow> nat \<Rightarrow> 'a \<Rightarrow> 'a \<Rightarrow> 'a"
  k_zhegst :: "nat \<Rightarrow> plasma_enum \<Rightarrow> nat \<Rightarrow> 'a \<Rightarrow> 'a \<Rightarrow> 'a"
  k_zlaset :: "plasma_enum \<Rightarrow> nat \<Rightarrow> nat \<Rightarrow> coef \<Rightarrow> coef \<Rightarrow> 'a \<Rightarrow> 'a"
  k_ztrsm :: "plasma_enum \<Rightarrow> plasma_enum \<Rightarrow> plasma_enum \<Rightarrow> plasma_enum \<Rightarrow> nat \<Rightarrow> nat
                \<Rightarrow> coef \<Rightarrow> 'a \<Rightarrow> 'a \<Rightarrow> 'a"
  k_zpotrf :: "plasma_enum \<Rightarrow> nat \<Rightarrow> 'a \<Rightarrow> 'a"
  k_zherk :: "plasma_enum \<Rightarrow> plasma_enum \<Rightarrow> nat \<Rightarrow> nat \<Rightarrow> coef \<Rightarrow> 'a \<Rightarrow> coef \<Rightarrow> 'a \<Rightarrow> 'a"
  k_expand :: "nat \<Rightarrow> 'a \<Rightarrow> 'a"
  k_view :: "task \<Rightarrow> (tile \<Rightarrow> 'a) \<Rightarrow> (tile \<Rightarrow> 'a)"

fun coef_val :: "coef \<Rightarrow> 'a::ring_1" where
  "coef_val zzero = 0"
| "coef_val zone = 1"
| "coef_val zmone = - 1"

definition op_val :: "'a kernels \<Rightarrow> plasma_enum \<Rightarrow> 'a \<Rightarrow> 'a" where
  "op_val K ta x = (if ta = PlasmaConjTrans then k_conj K x else x)"

fun exec :: "('a::ring_1) kernels \<Rightarrow> task \<Rightarrow> (tile \<Rightarrow> 'a) \<Rightarrow> (tile \<Rightarrow> 'a)" where
  "exec K (core_omp_zgemm ta tb m n k alpha a lda b ldb beta c ldc) s =
     s(c := coef_val alpha * (op_val K ta (s a) * op_val K tb (s b)) + coef_val beta * s c)"
| "exec K (core_omp_zgeadd ta m n alpha a lda beta b ldb) s =
     s(b := coef_val alpha * op_val K ta (s a) + coef_val beta * s b)"
| "exec K (core_omp_zlacpy uplo m n a lda b ldb) s =
     s(b := k_zlacpy K uplo m n (s a) (s b))"
| "exec K (core_omp_zhegst itype uplo n a lda b ldb) s =
     s(a := k_zhegst K itype uplo n (s a) (s b))"
| "exec K (core_omp_zlaset uplo mb nb i j m n alpha beta a) s =
     s(a := k_zlaset K uplo m n alpha beta (s a))"
| "exec K (core_omp_ztrsm side uplo ta diag m n alpha a lda b ldb) s =
     s(b := k_ztrsm K side uplo ta diag m n alpha (s a) (s b))"
| "exec K (core_omp_zpotrf uplo n a lda iinfo) s =
     s(a := k_zpotrf K uplo n (s a))"
| "exec K (core_omp_zherk uplo ta n k alpha a lda beta c ldc) s =
     s(c := k_zherk K uplo ta n k alpha (s a) beta (s c))"
| "exec K (core_zgetrf tempi tempj tempm mvak k1 ib nthreads) s =
     k_view K (core_zgetrf tempi tempj tempm mvak k1 ib nthreads) s"
| "exec K (core_zlaswp colrow i j m n k1 k2 incx) s =
     k_view K (core_zlaswp colrow i j m n k1 k2 incx) s"
| "exec K (core_omp_zlaswp_sym uplo k1 k2 incx) s =
     k_view K (core_omp_zlaswp_sym uplo k1 k2 incx) s"
| "exec K (ipiv_shift k1 cnt tempi) s = s"
| "exec K (expand_full a mvak ld) s = s(a := k_expand K mvak (s a))"
| "exec K (conj_transpose a lda b ldb mvakp1 mvak) s = s(a := k_conj K (s b))"
| "exec K omp_taskwait s = s"

text \<open>Tasks run in the order of submission.\<close>

definition run :: "('a::ring_1) kernels \<Rightarrow> task list \<Rightarrow> (tile \<Rightarrow> 'a) \<Rightarrow> (tile \<Rightarrow> 'a)" where
  "run K ts s = fold (exec K) ts s"


subsection \<open>The panel task and the status of the sequence (lines 339--362)\<close>



section \<open>Notions used in the statements\<close>

text \<open>The value the three calls of stage 1 leave in \<open>H(m,k)\<close>.\<close>

definition H_value :: "('a::ring_1) kernels \<Rightarrow> (tile \<Rightarrow> 'a) \<Rightarrow> nat \<Rightarrow> nat \<Rightarrow> 'a" where
  "H_value K s k m =
     s (T_tile m m) * k_conj K (s (L_tile k m))
     + (if m > 1 then s (T_tile m (m - 1)) * k_conj K (s (L_tile k (m - 1))) else 0)
     + k_conj K (s (T_tile (m + 1) m)) * k_conj K (s (L_tile k (m + 1)))"

text \<open>
  The sum of the \<open>j\<close>-th group of \<open>h\<close> consecutive slots among \<open>P\<close> slots: what slot
  \<open>j * h\<close> holds when the tournament has played the rounds with \<open>skip \<le> h\<close>.
\<close>

definition block_sum :: "(nat \<Rightarrow> 'a::comm_monoid_add) \<Rightarrow> nat \<Rightarrow> nat \<Rightarrow> nat \<Rightarrow> 'a" where
  "block_sum f P h j = (\<Sum>i = j * h..<min ((j + 1) * h) P. f i)"

text \<open>The tiles a task writes.\<close>

fun task_writes :: "task \<Rightarrow> tile list" where
  "task_writes (core_omp_zgemm ta tb m n k alpha a lda b ldb beta c ldc) = [c]"
| "task_writes (core_omp_zgeadd ta m n alpha a lda beta b ldb) = [b]"
| "task_writes (core_omp_zlacpy uplo m n a lda b ldb) = [b]"
| "task_writes (core_omp_zhegst itype uplo n a lda b ldb) = [a]"
| "task_writes (core_omp_zlaset uplo mb nb i j m n alpha beta a) = [a]"
| "task_writes (core_omp_ztrsm side uplo ta diag m n alpha a lda b ldb) = [b]"
| "task_writes (core_omp_zpotrf uplo n a lda iinfo) = [a]"
| "task_writes (core_omp_zherk uplo ta n k alpha a lda beta c ldc) = [c]"
| "task_writes (core_zgetrf tempi tempj tempm mvak k1 ib nthreads) = []"
| "task_writes (core_zlaswp colrow i j m n k1 k2 incx) = []"
| "task_writes (core_omp_zlaswp_sym uplo k1 k2 incx) = []"
| "task_writes (ipiv_shift k1 cnt tempi) = []"
| "task_writes (expand_full a mvak ld) = [a]"
| "task_writes (conj_transpose a lda b ldb mvakp1 mvak) = [a]"
| "task_writes omp_taskwait = []"

text \<open>
  A list of \<open>core_omp_zgemm\<close> calls in which a call has \<open>beta = zzero\<close> when no earlier
  call of the list (nor a tile of \<open>seen\<close>) wrote its output tile, and \<open>beta = zone\<close>
  otherwise.
\<close>

fun overwrite_then_accumulate :: "tile list \<Rightarrow> task list \<Rightarrow> bool" where
  "overwrite_then_accumulate seen [] = True"
| "overwrite_then_accumulate seen (core_omp_zgemm ta tb m n k alpha a lda b ldb beta c ldc # ts) =
     (beta = (if c \<in> set seen then zone else zzero) \<and> overwrite_then_accumulate (c # seen) ts)"
| "overwrite_then_accumulate seen (t # ts) = False"

text \<open>A task is \<^emph>\<open>banded\<close> when every tile of \<open>T\<close> it names lies on the diagonal or next to it.\<close>

definition band_task :: "task \<Rightarrow> bool" where
  "band_task t = (\<forall>i j. TileT i j \<in> set (task_tiles t) \<longrightarrow> i = j \<or> i = j + 1 \<or> j = i + 1)"

text \<open>
  The store \<open>s\<close> with the contents of every reduction slot (\<open>W3(j)\<close>, which is also
  \<open>W4(j)\<close>) replaced by those of \<open>r\<close>: what an earlier column, or an earlier call, may
  have left in the workspace.
\<close>

definition stale_workspace :: "plasma_desc \<Rightarrow> (tile \<Rightarrow> 'a) \<Rightarrow> (tile \<Rightarrow> 'a) \<Rightarrow> tile \<Rightarrow> 'a" where
  "stale_workspace A r s t =
     (case t of TileW i j \<Rightarrow> if j = 0 \<and> 3 * d_mt A \<le> i then r t else s t | _ \<Rightarrow> s t)"

subsection \<open>Example data\<close>

text \<open>
  A matrix of \<open>4 \<times> 4\<close> tiles of size \<open>2\<close>, a workspace with five reduction slots, eight
  threads.
\<close>

definition example_A :: plasma_desc where
  "example_A = \<lparr>d_m = 8, d_n = 8, d_mb = 2, d_nb = 2, d_mt = 4, d_nt = 4\<rparr>"

definition example_T :: plasma_desc where
  "example_T = \<lparr>d_m = 6, d_n = 8, d_mb = 2, d_nb = 2, d_mt = 3, d_nt = 4\<rparr>"

definition example_W :: plasma_desc where
  "example_W = \<lparr>d_m = 34, d_n = 4, d_mb = 2, d_nb = 4, d_mt = 17, d_nt = 1\<rparr>"

text \<open>
  The same matrix with one row and one column less: the last tile row and the last tile
  column are partial, so that \<open>plasma_tile_mview\<close> is \<open>1\<close> for tile \<open>3\<close> and \<open>2\<close> for the
  others. And a workspace with a single reduction slot.
\<close>

definition example_P :: plasma_desc where
  "example_P = \<lparr>d_m = 7, d_n = 7, d_mb = 2, d_nb = 2, d_mt = 4, d_nt = 4\<rparr>"

definition example_W1 :: plasma_desc where
  "example_W1 = \<lparr>d_m = 26, d_n = 4, d_mb = 2, d_nb = 4, d_mt = 13, d_nt = 1\<rparr>"

definition example_plasma :: plasma_context where
  "example_plasma = \<lparr>ctx_ib = 1, ctx_num_panel_threads = 2, ctx_max_threads = 8\<rparr>"

text \<open>
  Integer tile values. The parameter kernels are arbitrary functions here, chosen so that
  every one of them shows in a result.
\<close>

definition example_kernels :: "int kernels" where
  "example_kernels =
     \<lparr>k_conj = (\<lambda>x. x),
      k_zlacpy = (\<lambda>uplo m n a b. a),
      k_zhegst = (\<lambda>itype uplo n a b. a + b),
      k_zlaset = (\<lambda>uplo m n alpha beta a. 1),
      k_ztrsm = (\<lambda>side uplo ta diag m n alpha a b. b - a),
      k_zpotrf = (\<lambda>uplo n a. a),
      k_zherk = (\<lambda>uplo ta n k alpha a beta c. c - a * a),
      k_expand = (\<lambda>n a. 2 * a),
      k_view = (\<lambda>t s. s)\<rparr>"

definition example_store :: "tile \<Rightarrow> int" where
  "example_store t =
     (case t of TileA i j \<Rightarrow> int (10 * i + j + 1)
      | TileT i j \<Rightarrow> int (3 * i + j + 2)
      | TileW i j \<Rightarrow> int i + 100)"


section \<open>Running task lists\<close>

lemma run_Nil [simp]: "run K [] s = s"
  by (simp add: run_def)

lemma run_Cons [simp]: "run K (t # ts) s = run K ts (exec K t s)"
  by (simp add: run_def)

lemma run_append [simp]: "run K (ts @ us) s = run K us (run K ts s)"
  by (simp add: run_def)

lemma W2_tile_simps [simp]:
  "W2_tile A j \<noteq> TileA a b" "W2_tile A j \<noteq> TileT a b"
  "TileA a b \<noteq> W2_tile A j" "TileT a b \<noteq> W2_tile A j"
  "(W2_tile A i = W2_tile A j) = (i = j)"
  by (simp_all add: W2_tile_def)

lemma W3_tile_simps [simp]:
  "W3_tile A j \<noteq> TileA a b" "W3_tile A j \<noteq> TileT a b"
  "TileA a b \<noteq> W3_tile A j" "TileT a b \<noteq> W3_tile A j"
  "(W3_tile A i = W3_tile A j) = (i = j)"
  by (simp_all add: W3_tile_def)

lemma W4_tile_simps [simp]:
  "W4_tile A j \<noteq> TileA a b" "W4_tile A j \<noteq> TileT a b"
  "TileA a b \<noteq> W4_tile A j" "TileT a b \<noteq> W4_tile A j"
  "(W4_tile A i = W4_tile A j) = (i = j)"
  by (simp_all add: W4_tile_def)

lemma W2_W3_neq:
  "m < 2 * d_mt A \<Longrightarrow> W2_tile A m \<noteq> W3_tile A j"
  "m < 2 * d_mt A \<Longrightarrow> W3_tile A j \<noteq> W2_tile A m"
  "m < 2 * d_mt A \<Longrightarrow> W2_tile A m \<noteq> W4_tile A j"
  "m < 2 * d_mt A \<Longrightarrow> W4_tile A j \<noteq> W2_tile A m"
  by (auto simp: W2_tile_def W3_tile_def W4_tile_def)

lemma L_tile_inj: "(L_tile a n = L_tile b n) = (a = b)"
  by (simp add: L_tile_def)

lemma slot_index_inj:
  fixes P :: nat
  assumes "i < P" "j < P" "a * P + i = b * P + j"
  shows "a = b \<and> i = j"
proof -
  have "(a * P + i) div P = a" "(b * P + j) div P = b"
    using assms(1,2) by simp_all
  then have "a = b" using assms(3) by simp
  then show ?thesis using assms(3) by simp
qed

text \<open>A loop over tile rows in which row \<open>r\<close> adds tile \<open>src r\<close> into tile \<open>dst r\<close>.\<close>

lemma run_geadd_rows_frame:
  "\<forall>r \<in> set rows. t \<noteq> dst r \<Longrightarrow>
   run K (map (\<lambda>r. core_omp_zgeadd PlasmaNoTrans (p r) (q r) zone (src r) (lda r) zone (dst r) (ldb r))
              rows) s t = s t"
  by (induction rows arbitrary: s) simp_all

lemma run_geadd_rows_at:
  assumes "r \<in> set rows" "distinct rows" "inj_on dst (set rows)"
    "\<forall>a \<in> set rows. src r \<noteq> dst a"
  shows "run K (map (\<lambda>r. core_omp_zgeadd PlasmaNoTrans (p r) (q r) zone (src r) (lda r) zone (dst r) (ldb r))
              rows) s (dst r) = s (src r) + s (dst r)"
  using assms
proof (induction rows arbitrary: s)
  case Nil
  then show ?case by simp
next
  case (Cons x xs)
  show ?case
  proof (cases "r = x")
    case True
    have "\<forall>a \<in> set xs. dst r \<noteq> dst a"
      using Cons.prems(2,3) True by (auto simp: inj_on_def)
    then show ?thesis
      using True by (simp add: run_geadd_rows_frame op_val_def)
  next
    case False
    then have "r \<in> set xs" "distinct xs" "inj_on dst (set xs)" "\<forall>a \<in> set xs. src r \<noteq> dst a"
      using Cons.prems by (auto simp: inj_on_def)
    then have "run K (map (\<lambda>r. core_omp_zgeadd PlasmaNoTrans (p r) (q r) zone (src r) (lda r) zone
                   (dst r) (ldb r)) xs) s' (dst r) = s' (src r) + s' (dst r)" for s'
      by (rule Cons.IH)
    moreover have "src r \<noteq> dst x" "dst r \<noteq> dst x"
      using Cons.prems False by (auto simp: inj_on_def)
    ultimately show ?thesis
      by simp
  qed
qed


section \<open>The tournament reduction\<close>

lemma odd_multiple_neq:
  fixes h :: nat
  assumes "0 < h"
  shows "2 * h * b + h \<noteq> 2 * h * c"
proof
  assume "2 * h * b + h = 2 * h * c"
  then have "h * (2 * b + 1) = h * (2 * c)"
    by (simp add: algebra_simps)
  with assms have "2 * b + 1 = 2 * c"
    using nat_mult_eq_cancel1 by blast
  then show False
    by arith
qed

text \<open>One round: every bracket adds its second slot into its first.\<close>

lemma run_round:
  fixes slot :: "nat \<Rightarrow> tile" and s :: "tile \<Rightarrow> 'a::ring_1"
  assumes body: "\<And>m1 m2 s j. m1 < P \<Longrightarrow> m2 < P \<Longrightarrow> m1 \<noteq> m2 \<Longrightarrow> j < P \<Longrightarrow>
            run K (body m1 m2) s (slot j) = (if j = m1 then s (slot m2) + s (slot m1) else s (slot j))"
    and h: "0 < h"
    and B: "\<And>b. b < B \<Longrightarrow> 2 * h * b + h < P"
    and j: "j < P"
  shows "run K (concat (map (\<lambda>bracket. body (2 * h * bracket) (2 * h * bracket + (2 * h) div 2))
                        [0..<B])) s (slot j)
         = (if \<exists>b<B. j = 2 * h * b then s (slot (j + h)) + s (slot j) else s (slot j))"
  using B j
proof (induction B arbitrary: j)
  case 0
  then show ?case by simp
next
  case (Suc B)
  let ?xs = "concat (map (\<lambda>bracket. body (2 * h * bracket) (2 * h * bracket + (2 * h) div 2)) [0..<B])"
  let ?s' = "run K ?xs s"
  have lt2: "2 * h * B + h < P" using Suc.prems(1)[of B] by simp
  then have lt1: "2 * h * B < P" by simp
  have IH: "\<And>j. j < P \<Longrightarrow> ?s' (slot j) =
      (if \<exists>b<B. j = 2 * h * b then s (slot (j + h)) + s (slot j) else s (slot j))"
    using Suc.IH Suc.prems(1) by simp
  have a: "?s' (slot (2 * h * B + h)) = s (slot (2 * h * B + h))"
    using IH[OF lt2] odd_multiple_neq[OF h] by simp
  have b: "?s' (slot (2 * h * B)) = s (slot (2 * h * B))"
    using IH[OF lt1] h by simp
  have step: "run K (body (2 * h * B) (2 * h * B + h)) ?s' (slot j)
      = (if j = 2 * h * B then ?s' (slot (2 * h * B + h)) + ?s' (slot (2 * h * B)) else ?s' (slot j))"
    using body[OF lt1 lt2 _ Suc.prems(2)] h by simp
  show ?case
  proof (cases "j = 2 * h * B")
    case True
    then show ?thesis
      using step a b by auto
  next
    case False
    then have "(\<exists>b<Suc B. j = 2 * h * b) = (\<exists>b<B. j = 2 * h * b)"
      using less_Suc_eq by auto
    then show ?thesis
      using step False IH[OF Suc.prems(2)] by simp
  qed
qed

lemma block_sum_merge:
  assumes "(2 * j + 1) * h \<le> P"
  shows "block_sum f P h (2 * j + 1) + block_sum f P h (2 * j) = block_sum f P (2 * h) j"
proof -
  have e1: "min ((2 * j + 1) * h) P = (2 * j + 1) * h"
    using assms by simp
  have e2: "(2 * j + 1 + 1) * h = (j + 1) * (2 * h)" "2 * j * h = j * (2 * h)"
    by (simp_all add: algebra_simps)
  have "block_sum f P h (2 * j) + block_sum f P h (2 * j + 1)
        = sum f {2 * j * h..<(2 * j + 1) * h} + sum f {(2 * j + 1) * h..<min ((j + 1) * (2 * h)) P}"
    by (simp only: block_sum_def e1 e2)
  also have "\<dots> = sum f {2 * j * h..<min ((j + 1) * (2 * h)) P}"
    using assms by (intro sum.atLeastLessThan_concat) (simp_all add: algebra_simps)
  finally show ?thesis
    by (simp add: block_sum_def e2 add.commute)
qed

lemma block_sum_last:
  assumes "P \<le> (2 * j + 1) * h"
  shows "block_sum f P h (2 * j) = block_sum f P (2 * h) j"
proof -
  have "min ((2 * j + 1) * h) P = P" "min ((j + 1) * (2 * h)) P = P"
    using assms by (simp_all add: algebra_simps)
  moreover have "2 * j * h = j * (2 * h)"
    by simp
  ultimately show ?thesis
    by (simp only: block_sum_def)
qed

lemma run_tournament:
  fixes slot :: "nat \<Rightarrow> tile" and s :: "tile \<Rightarrow> 'a::ring_1"
  assumes body: "\<And>m1 m2 s j. m1 < P \<Longrightarrow> m2 < P \<Longrightarrow> m1 \<noteq> m2 \<Longrightarrow> j < P \<Longrightarrow>
            run K (body m1 m2) s (slot j) = (if j = m1 then s (slot m2) + s (slot m1) else s (slot j))"
  shows "0 < h \<Longrightarrow> (np - 1) * h < P \<Longrightarrow> P \<le> np * h \<Longrightarrow> ceillog2 np \<le> R \<Longrightarrow>
         (\<And>j. j < np \<Longrightarrow> s (slot (j * h)) = block_sum f P h j) \<Longrightarrow>
         run K (tournament R np (2 * h) body) s (slot 0) = (\<Sum>i<P. f i)"
proof (induction R arbitrary: np h s)
  case 0
  have "0 < np"
    using "0.prems"(2,3) by (cases np) simp_all
  moreover have "np \<le> 1"
    using "0.prems"(4) ceillog2_le_iff[OF \<open>0 < np\<close>, of 0] by simp
  ultimately have np: "np = 1" by simp
  then have "P \<le> h" using "0.prems"(3) by simp
  then have "block_sum f P h 0 = (\<Sum>i<P. f i)"
    by (simp add: block_sum_def min_absorb2 atLeast0LessThan)
  then show ?case
    using "0.prems"(5)[of 0] np by simp
next
  case (Suc R)
  let ?B = "np div 2"
  let ?np' = "(np + 1) div 2"
  let ?round = "concat (map (\<lambda>bracket. body (2 * h * bracket) (2 * h * bracket + (2 * h) div 2)) [0..<?B])"
  let ?s' = "run K ?round s"
  have h: "0 < h" by (rule Suc.prems(1))
  have lo: "(np - 1) * h < P" by (rule Suc.prems(2))
  have hi: "P \<le> np * h" by (rule Suc.prems(3))
  have inv: "\<And>j. j < np \<Longrightarrow> s (slot (j * h)) = block_sum f P h j" by (rule Suc.prems(5))
  have P: "0 < P" using lo by simp
  have brackets: "\<And>b. b < ?B \<Longrightarrow> 2 * h * b + h < P"
  proof -
    fix b assume "b < ?B"
    then have "2 * b + 1 \<le> np - 1" by arith
    then have "(2 * b + 1) * h \<le> (np - 1) * h" by (rule mult_le_mono1)
    moreover have "2 * h * b + h = (2 * b + 1) * h" by (simp add: algebra_simps)
    ultimately show "2 * h * b + h < P" using lo by (simp only: le_less_trans)
  qed
  have lo': "(?np' - 1) * (2 * h) < P"
  proof -
    have "(?np' - 1) * 2 \<le> np - 1" by arith
    then have "(?np' - 1) * 2 * h \<le> (np - 1) * h" by (rule mult_le_mono1)
    moreover have "(?np' - 1) * (2 * h) = (?np' - 1) * 2 * h" by simp
    ultimately show ?thesis using lo by (simp only: le_less_trans)
  qed
  have hi': "P \<le> ?np' * (2 * h)"
  proof -
    have "np \<le> ?np' * 2" by arith
    then have "np * h \<le> ?np' * 2 * h" by (rule mult_le_mono1)
    moreover have "?np' * (2 * h) = ?np' * 2 * h" by simp
    ultimately show ?thesis using hi by (simp only: le_trans)
  qed
  have rounds: "ceillog2 ?np' \<le> R"
    using Suc.prems(4) by (subst (asm) ceillog2_rec) (simp split: if_splits)
  have inv': "?s' (slot (j * (2 * h))) = block_sum f P (2 * h) j" if j: "j < ?np'" for j
  proof -
    have "j \<le> ?np' - 1" using j by arith
    then have "j * (2 * h) \<le> (?np' - 1) * (2 * h)" by (rule mult_le_mono1)
    then have jP: "j * (2 * h) < P" using lo' by (rule le_less_trans)
    have ex: "(\<exists>b<?B. j * (2 * h) = 2 * h * b) = (j < ?B)"
      using h by (auto simp: mult.commute)
    have r: "?s' (slot (j * (2 * h))) =
          (if j < ?B then s (slot (j * (2 * h) + h)) + s (slot (j * (2 * h))) else s (slot (j * (2 * h))))"
    proof -
      have "?s' (slot (j * (2 * h))) =
          (if \<exists>b<?B. j * (2 * h) = 2 * h * b
           then s (slot (j * (2 * h) + h)) + s (slot (j * (2 * h))) else s (slot (j * (2 * h))))"
      proof (rule run_round[where P = P])
        show "\<And>m1 m2 s j. m1 < P \<Longrightarrow> m2 < P \<Longrightarrow> m1 \<noteq> m2 \<Longrightarrow> j < P \<Longrightarrow>
            run K (body m1 m2) s (slot j) = (if j = m1 then s (slot m2) + s (slot m1) else s (slot j))"
          by (rule body)
        show "0 < h" by (rule h)
        show "\<And>b. b < ?B \<Longrightarrow> 2 * h * b + h < P" by (rule brackets)
        show "j * (2 * h) < P" by (rule jP)
      qed
      then show ?thesis by (simp only: ex)
    qed
    have e: "j * (2 * h) + h = (2 * j + 1) * h" "j * (2 * h) = (2 * j) * h"
      by (simp_all add: algebra_simps)
    show ?thesis
    proof (cases "j < ?B")
      case True
      then have lt: "2 * j + 1 < np" "2 * j < np" by arith+
      have a: "s (slot (j * (2 * h) + h)) = block_sum f P h (2 * j + 1)"
        using inv[OF lt(1)] by (simp only: e(1))
      have b: "s (slot (j * (2 * h))) = block_sum f P h (2 * j)"
        using inv[OF lt(2)] by (simp only: e(2))
      have "(2 * j + 1) * h \<le> P"
        using brackets[OF True] by (simp add: algebra_simps)
      then have "block_sum f P h (2 * j + 1) + block_sum f P h (2 * j) = block_sum f P (2 * h) j"
        by (rule block_sum_merge)
      then show ?thesis
        using True r a b by simp
    next
      case False
      with j have np: "np = 2 * j + 1" by arith
      then have "2 * j < np" by simp
      then have b: "s (slot (j * (2 * h))) = block_sum f P h (2 * j)"
        using inv[of "2 * j"] by (simp only: e(2))
      have "P \<le> (2 * j + 1) * h"
        using hi np by simp
      then have "block_sum f P h (2 * j) = block_sum f P (2 * h) j"
        by (rule block_sum_last)
      then show ?thesis
        using False r b by simp
    qed
  qed
  have "run K (tournament R ?np' (2 * (2 * h)) body) ?s' (slot 0) = (\<Sum>i<P. f i)"
    using Suc.IH[of "2 * h" ?np' ?s'] h lo' hi' rounds inv' by simp
  then show ?case
    by simp
qed

lemma tournament_no_players: "tournament R 0 skip body = []"
  by (induction R arbitrary: skip) simp_all

lemma tournament_one_player: "tournament R (Suc 0) skip body = []"
  by (induction R arbitrary: skip) simp_all

lemma tournament_extra_round:
  "ceillog2 np \<le> R \<Longrightarrow> tournament (Suc R) np skip body = tournament R np skip body"
proof (induction R arbitrary: np skip)
  case 0
  then have "np = 0 \<or> np = 1"
    using ceillog2_le_iff[of np 0] by (cases "np = 0") auto
  then show ?case
    by (auto simp: tournament_no_players tournament_one_player)
next
  case (Suc R)
  have "ceillog2 ((np + 1) div 2) \<le> R"
    using Suc.prems by (subst (asm) ceillog2_rec) (simp split: if_splits)
  then have "tournament (Suc R) ((np + 1) div 2) (2 * skip) body
        = tournament R ((np + 1) div 2) (2 * skip) body"
    by (rule Suc.IH)
  then show ?case
    by simp
qed

lemma run_tournament_frame:
  assumes "\<And>m1 m2 s. run K (body m1 m2) s t = s t"
  shows "run K (tournament R np skip body) s t = s t"
proof (induction R arbitrary: np skip s)
  case 0
  then show ?case by simp
next
  case (Suc R)
  have "run K (concat (map (\<lambda>bracket. body (skip * bracket) (skip * bracket + skip div 2)) bs)) s t = s t"
    for bs s
    by (induction bs arbitrary: s) (simp_all add: assms)
  then show ?case
    using Suc.IH by simp
qed

lemma run_tournament_slots:
  fixes slot :: "nat \<Rightarrow> tile" and s :: "tile \<Rightarrow> 'a::ring_1"
  assumes body: "\<And>m1 m2 s j. m1 < P \<Longrightarrow> m2 < P \<Longrightarrow> m1 \<noteq> m2 \<Longrightarrow> j < P \<Longrightarrow>
            run K (body m1 m2) s (slot j) = (if j = m1 then s (slot m2) + s (slot m1) else s (slot j))"
    and P: "1 \<le> P"
  shows "run K (tournament (num_rounds P) P 2 body) s (slot 0) = (\<Sum>i<P. s (slot i))"
proof -
  have "run K (tournament (num_rounds P) P (2 * 1) body) s (slot 0) = (\<Sum>i<P. s (slot i))"
  proof (rule run_tournament[where P = P and slot = slot and f = "\<lambda>i. s (slot i)"])
    show "\<And>m1 m2 s j. m1 < P \<Longrightarrow> m2 < P \<Longrightarrow> m1 \<noteq> m2 \<Longrightarrow> j < P \<Longrightarrow>
            run K (body m1 m2) s (slot j) = (if j = m1 then s (slot m2) + s (slot m1) else s (slot j))"
      by (rule body)
    show "(0::nat) < 1" by simp
    show "(P - 1) * 1 < P" using P by simp
    show "P \<le> P * 1" by simp
    show "ceillog2 P \<le> num_rounds P" by (simp add: num_rounds_def)
    show "\<And>j. j < P \<Longrightarrow> s (slot (j * 1)) = block_sum (\<lambda>i. s (slot i)) P 1 j"
      by (simp add: block_sum_def min_absorb1)
  qed
  then show ?thesis by simp
qed

lemma run_diagonal_bracket:
  "m1 \<noteq> m2 \<Longrightarrow> run K (diagonal_bracket A k m1 m2) s (W3_tile A j)
     = (if j = m1 then s (W3_tile A m2) + s (W3_tile A m1) else s (W3_tile A j))"
  by (simp add: diagonal_bracket_def Let_def op_val_def)

lemma run_diagonal_bracket_frame:
  "\<forall>j. t \<noteq> W3_tile A j \<Longrightarrow> run K (diagonal_bracket A k m1 m2) s t = s t"
  by (simp add: diagonal_bracket_def Let_def)

lemma run_diagonal_reduce:
  "1 \<le> P \<Longrightarrow> run K (diagonal_reduce A k P) s (W3_tile A 0) = (\<Sum>i<P. s (W3_tile A i))"
  unfolding diagonal_reduce_def
  by (rule run_tournament_slots) (simp_all add: run_diagonal_bracket)

lemma run_diagonal_reduce_frame:
  "\<forall>j. t \<noteq> W3_tile A j \<Longrightarrow> run K (diagonal_reduce A k P) s t = s t"
  unfolding diagonal_reduce_def
  by (rule run_tournament_frame) (simp add: run_diagonal_bracket_frame)

lemma run_workspace_bracket:
  assumes "k < m" "m < d_mt A" "m1 < P" "m2 < P" "m1 \<noteq> m2" "j < P"
  shows "run K (workspace_bracket A k P m1 m2) s (W4_tile A ((m - k - 1) * P + j))
     = (if j = m1 then s (W4_tile A ((m - k - 1) * P + m2)) + s (W4_tile A ((m - k - 1) * P + m1))
        else s (W4_tile A ((m - k - 1) * P + j)))"
proof (cases "j = m1")
  case True
  have rows: "m \<in> set [k + 1..<d_mt A]" using assms by simp
  have inj: "inj_on (\<lambda>r. W4_tile A ((r - k - 1) * P + m1)) (set [k + 1..<d_mt A])"
    using assms(3) by (auto simp: inj_on_def)
  have src: "\<forall>a \<in> set [k + 1..<d_mt A].
      W4_tile A ((m - k - 1) * P + m2) \<noteq> W4_tile A ((a - k - 1) * P + m1)"
    using slot_index_inj[OF assms(4) assms(3)] assms(5) by auto
  show ?thesis
    unfolding workspace_bracket_def Let_def
    using run_geadd_rows_at[of m "[k + 1..<d_mt A]" "\<lambda>r. W4_tile A ((r - k - 1) * P + m1)"
        "\<lambda>r. W4_tile A ((r - k - 1) * P + m2)" K, OF rows _ inj src] True
    by simp
next
  case False
  have "\<forall>r \<in> set [k + 1..<d_mt A].
      W4_tile A ((m - k - 1) * P + j) \<noteq> W4_tile A ((r - k - 1) * P + m1)"
    using slot_index_inj[OF assms(6) assms(3)] False by auto
  then show ?thesis
    unfolding workspace_bracket_def Let_def
    using False by (simp add: run_geadd_rows_frame)
qed

lemma run_workspace_bracket_frame:
  "\<forall>j. t \<noteq> W4_tile A j \<Longrightarrow> run K (workspace_bracket A k P m1 m2) s t = s t"
  unfolding workspace_bracket_def Let_def
  by (rule run_geadd_rows_frame) simp

lemma run_workspace_reduce:
  assumes "1 \<le> P" "k < m" "m < d_mt A"
  shows "run K (workspace_reduce A k P) s (W4_tile A ((m - k - 1) * P))
         = (\<Sum>i<P. s (W4_tile A ((m - k - 1) * P + i)))"
proof -
  let ?slot = "\<lambda>j. W4_tile A ((m - k - 1) * P + j)"
  have "run K (tournament (num_rounds P) P 2 (workspace_bracket A k P)) s (?slot 0)
        = (\<Sum>i<P. s (?slot i))"
  proof (rule run_tournament_slots)
    show "\<And>m1 m2 s j. m1 < P \<Longrightarrow> m2 < P \<Longrightarrow> m1 \<noteq> m2 \<Longrightarrow> j < P \<Longrightarrow>
        run K (workspace_bracket A k P m1 m2) s (?slot j)
        = (if j = m1 then s (?slot m2) + s (?slot m1) else s (?slot j))"
      by (rule run_workspace_bracket[OF assms(2,3)])
    show "1 \<le> P" by (rule assms(1))
  qed
  then show ?thesis
    by (simp add: workspace_reduce_def)
qed

lemma run_workspace_reduce_frame:
  "\<forall>j. t \<noteq> W4_tile A j \<Longrightarrow> run K (workspace_reduce A k P) s t = s t"
  unfolding workspace_reduce_def
  by (rule run_tournament_frame) (simp add: run_workspace_bracket_frame)


section \<open>The off-diagonal blocks\<close>

lemma run_offdiagonal_H:
  "run K (offdiagonal_H PlasmaLower A T k m) s = s(W2_tile A m := H_value K s k m)"
  by (auto simp: offdiagonal_H_def Let_def H_tile_def T_tile_def L_tile_def op_val_def fun_eq_iff
      H_value_def)

lemma H_value_cong:
  "(\<And>a b. s' (TileT a b) = s (TileT a b)) \<Longrightarrow> (\<And>a b. s' (TileA a b) = s (TileA a b))
   \<Longrightarrow> H_value K s' k m = H_value K s k m"
  by (simp add: H_value_def T_tile_def L_tile_def)

lemma run_offdiagonals_frame:
  "\<forall>m \<in> set ms. t \<noteq> W2_tile A m \<Longrightarrow>
   run K (concat (map (offdiagonal_H PlasmaLower A T k) ms)) s t = s t"
  by (induction ms arbitrary: s) (simp_all add: run_offdiagonal_H)

lemma run_offdiagonals_at:
  "m \<in> set ms \<Longrightarrow> distinct ms \<Longrightarrow>
   run K (concat (map (offdiagonal_H PlasmaLower A T k) ms)) s (W2_tile A m) = H_value K s k m"
proof (induction ms arbitrary: s)
  case Nil
  then show ?case by simp
next
  case (Cons x xs)
  show ?case
  proof (cases "m = x")
    case True
    with Cons.prems have "\<forall>m' \<in> set xs. W2_tile A m \<noteq> W2_tile A m'" by auto
    then show ?thesis
      using True by (simp add: run_offdiagonal_H run_offdiagonals_frame)
  next
    case False
    with Cons.prems have "m \<in> set xs" "distinct xs" by auto
    then have "run K (concat (map (offdiagonal_H PlasmaLower A T k) xs))
                 (s(W2_tile A x := H_value K s k x)) (W2_tile A m)
               = H_value K (s(W2_tile A x := H_value K s k x)) k m"
      by (rule Cons.IH)
    also have "\<dots> = H_value K s k m"
      by (rule H_value_cong) simp_all
    finally show ?thesis
      by (simp add: run_offdiagonal_H)
  qed
qed


section \<open>The diagonal block\<close>

lemma exec_diagonal_gemm:
  "exec K (diagonal_gemm PlasmaLower A k num m) s =
     s(W3_tile A ((m - 1) mod num) :=
         - (s (L_tile k m) * s (H_tile PlasmaLower A m k))
         + (if m < num + 1 then 0 else s (W3_tile A ((m - 1) mod num))))"
  by (simp add: diagonal_gemm_def Let_def op_val_def)

lemma run_diagonal_gemms_frame:
  "\<forall>j. t \<noteq> W3_tile A j \<Longrightarrow> run K (map (diagonal_gemm PlasmaLower A k num) ms) s t = s t"
  by (induction ms arbitrary: s) (simp_all add: exec_diagonal_gemm)

lemma run_diagonal_gemms_slot:
  fixes s :: "tile \<Rightarrow> 'a::ring_1"
  assumes num: "0 < num" and k: "k \<le> 2 * d_mt A" and j: "j < num"
  shows "n \<le> k \<Longrightarrow>
     run K (map (diagonal_gemm PlasmaLower A k num) [1..<n]) s (W3_tile A j)
     = (if j + 1 < n
        then (\<Sum>m = 1..<n. if (m - 1) mod num = j
                            then - (s (L_tile k m) * s (H_tile PlasmaLower A m k)) else 0)
        else s (W3_tile A j))"
proof (induction n)
  case 0
  then show ?case by simp
next
  case (Suc n)
  let ?f = "\<lambda>m. if (m - 1) mod num = j
                then - (s (L_tile k m) * s (H_tile PlasmaLower A m k)) else 0"
  let ?s' = "run K (map (diagonal_gemm PlasmaLower A k num) [1..<n]) s"
  show ?case
  proof (cases "1 \<le> n")
    case False
    then show ?thesis by simp
  next
    case True
    have nk: "n < k" "n \<le> k" using Suc.prems by simp_all
    have IH: "?s' (W3_tile A j) = (if j + 1 < n then sum ?f {1..<n} else s (W3_tile A j))"
      using Suc.IH nk by simp
    have L: "?s' (L_tile k n) = s (L_tile k n)"
      by (rule run_diagonal_gemms_frame) (simp add: L_tile_def)
    have "n < 2 * d_mt A" using nk k by simp
    then have H: "?s' (H_tile PlasmaLower A n k) = s (H_tile PlasmaLower A n k)"
      by (intro run_diagonal_gemms_frame) (simp add: H_tile_def W2_W3_neq)
    have split: "sum ?f {1..<Suc n} = sum ?f {1..<n} + ?f n"
      using True by (simp add: sum.atLeastLessThan_Suc)
    have run: "run K (map (diagonal_gemm PlasmaLower A k num) [1..<Suc n]) s
        = exec K (diagonal_gemm PlasmaLower A k num n) ?s'"
      using True by simp
    show ?thesis
    proof (cases "(n - 1) mod num = j")
      case same: True
      show ?thesis
      proof (cases "n < num + 1")
        case first: True
        then have "n - 1 < num" using True by arith
        then have "n - 1 = j" using same by simp
        then have "\<not> j + 1 < n" "j + 1 < Suc n" using True by simp_all
        moreover have "sum ?f {1..<n} = 0"
        proof (rule sum.neutral, rule ballI)
          fix m assume "m \<in> {1..<n}"
          then have "m - 1 < num" "m - 1 \<noteq> j" using first \<open>n - 1 = j\<close> by auto
          then show "?f m = 0" by simp
        qed
        ultimately show ?thesis
          using run same first L H split by (simp add: exec_diagonal_gemm)
      next
        case later: False
        then have "j + 1 < n" using j by simp
        then show ?thesis
          using run same later L H split IH by (simp add: exec_diagonal_gemm)
      qed
    next
      case other: False
      have "j + 1 \<noteq> n"
      proof
        assume "j + 1 = n"
        then have "(n - 1) mod num = j" using j by auto
        with other show False by simp
      qed
      then have "(j + 1 < Suc n) = (j + 1 < n)" by arith
      then show ?thesis
        using run other split IH by (simp add: exec_diagonal_gemm)
    qed
  qed
qed

lemma round_robin_sum:
  fixes f :: "nat \<Rightarrow> 'a::comm_monoid_add"
  assumes "0 < num"
  shows "(\<Sum>j<num. \<Sum>m = a..<b. if (m - 1) mod num = j then f m else 0) = (\<Sum>m = a..<b. f m)"
proof -
  have "(\<Sum>j<num. \<Sum>m = a..<b. if (m - 1) mod num = j then f m else 0)
        = (\<Sum>m = a..<b. \<Sum>j<num. if (m - 1) mod num = j then f m else 0)"
    by (rule sum.swap)
  also have "\<dots> = (\<Sum>m = a..<b. f m)"
  proof (rule sum.cong)
    fix m
    have "(m - 1) mod num \<in> {..<num}" using assms by simp
    then show "(\<Sum>j<num. if (m - 1) mod num = j then f m else 0) = f m"
      by (simp add: sum.delta')
  qed simp
  finally show ?thesis .
qed

lemma run_diagonal_accumulate_slot:
  fixes s :: "tile \<Rightarrow> 'a::ring_1"
  assumes "0 < num" "num < k" "k \<le> 2 * d_mt A" "j < num"
  shows "run K (diagonal_accumulate PlasmaLower A k num) s (W3_tile A j)
     = (\<Sum>m = 1..<k. if (m - 1) mod num = j
                      then - (s (L_tile k m) * s (H_tile PlasmaLower A m k)) else 0)"
  unfolding diagonal_accumulate_def
  using run_diagonal_gemms_slot[OF assms(1,3,4), of k K s] assms(2,4) by simp

lemma run_diagonal_accumulate_frame:
  "\<forall>j. t \<noteq> W3_tile A j \<Longrightarrow> run K (diagonal_accumulate PlasmaLower A k num) s t = s t"
  unfolding diagonal_accumulate_def by (rule run_diagonal_gemms_frame)

lemma run_diagonal_finish:
  "run K (diagonal_finish A T k) s (T_tile k k)
     = s (W3_tile A 0)
       + k_zlacpy K PlasmaLower (plasma_tile_mview A k) (plasma_tile_mview A k)
           (s (A_tile k k)) (s (T_tile k k))"
  by (simp add: diagonal_finish_def Let_def op_val_def T_tile_def A_tile_def)

lemma run_diagonal_copy:
  "run K (diagonal_copy A T k) s (T_tile k k)
     = k_expand K (plasma_tile_mview A k)
         (k_zlacpy K PlasmaLower (plasma_tile_mview A k) (plasma_tile_mview A k)
            (s (A_tile k k)) (s (T_tile k k)))"
  by (simp add: diagonal_copy_def Let_def T_tile_def A_tile_def)

lemma run_diagonal_sum:
  fixes s :: "tile \<Rightarrow> 'a::ring_1"
  assumes "0 < num" "num < k" "k \<le> 2 * d_mt A"
  shows "run K (diagonal_accumulate PlasmaLower A k num @ diagonal_reduce A k num
                @ diagonal_finish A T k) s (T_tile k k)
     = k_zlacpy K PlasmaLower (plasma_tile_mview A k) (plasma_tile_mview A k)
         (s (A_tile k k)) (s (T_tile k k))
       - (\<Sum>m = 1..<k. s (L_tile k m) * s (H_tile PlasmaLower A m k))"
proof -
  let ?s1 = "run K (diagonal_accumulate PlasmaLower A k num) s"
  let ?s2 = "run K (diagonal_reduce A k num) ?s1"
  let ?g = "\<lambda>m. - (s (L_tile k m) * s (H_tile PlasmaLower A m k))"
  have keep: "?s2 t = s t" if "\<forall>j. t \<noteq> W3_tile A j" for t
    using that by (simp add: run_diagonal_reduce_frame run_diagonal_accumulate_frame)
  have "?s2 (W3_tile A 0) = (\<Sum>j<num. ?s1 (W3_tile A j))"
    using assms(1) by (simp add: run_diagonal_reduce)
  also have "\<dots> = (\<Sum>j<num. \<Sum>m = 1..<k. if (m - 1) mod num = j then ?g m else 0)"
  proof (rule sum.cong[OF refl])
    fix j assume "j \<in> {..<num}"
    then have "j < num" by simp
    with assms show "?s1 (W3_tile A j) = (\<Sum>m = 1..<k. if (m - 1) mod num = j then ?g m else 0)"
      by (rule run_diagonal_accumulate_slot)
  qed
  also have "\<dots> = (\<Sum>m = 1..<k. ?g m)"
    using assms(1) by (rule round_robin_sum)
  also have "\<dots> = - (\<Sum>m = 1..<k. s (L_tile k m) * s (H_tile PlasmaLower A m k))"
    by (rule sum_negf)
  finally have W: "?s2 (W3_tile A 0)
      = - (\<Sum>m = 1..<k. s (L_tile k m) * s (H_tile PlasmaLower A m k))" .
  have "?s2 (A_tile k k) = s (A_tile k k)" "?s2 (T_tile k k) = s (T_tile k k)"
    by (rule keep, simp add: A_tile_def T_tile_def)+
  then show ?thesis
    using W by (simp add: run_diagonal_finish)
qed


section \<open>The column update\<close>

lemma exec_workspace_gemm:
  "exec K (workspace_gemm PlasmaLower A k num n m) s =
     s(W4_tile A ((m - k - 1) * num + (n - 1) mod num) :=
         - (s (L_tile m n) * s (H_tile PlasmaLower A n k))
         + (if n < num + 1 then 0 else s (W4_tile A ((m - k - 1) * num + (n - 1) mod num))))"
  by (simp add: workspace_gemm_def Let_def op_val_def)

lemma run_workspace_row_frame:
  "\<forall>j. t \<noteq> W4_tile A j \<Longrightarrow>
   run K (map (workspace_gemm PlasmaLower A k num n) rows) s t = s t"
  by (induction rows arbitrary: s) (simp_all add: exec_workspace_gemm)

lemma run_workspace_row_other:
  "\<forall>r \<in> set rows. t \<noteq> W4_tile A ((r - k - 1) * num + (n - 1) mod num) \<Longrightarrow>
   run K (map (workspace_gemm PlasmaLower A k num n) rows) s t = s t"
  by (induction rows arbitrary: s) (simp_all add: exec_workspace_gemm)

lemma run_workspace_row_at:
  fixes s :: "tile \<Rightarrow> 'a::ring_1"
  assumes num: "0 < num" and n: "n < 2 * d_mt A" and m: "m \<in> set rows" "distinct rows"
    and rows: "\<forall>r \<in> set rows. k < r"
  shows "run K (map (workspace_gemm PlasmaLower A k num n) rows) s
           (W4_tile A ((m - k - 1) * num + (n - 1) mod num))
         = - (s (L_tile m n) * s (H_tile PlasmaLower A n k))
           + (if n < num + 1 then 0 else s (W4_tile A ((m - k - 1) * num + (n - 1) mod num)))"
  using m rows
proof (induction rows arbitrary: s)
  case Nil
  then show ?case by simp
next
  case (Cons x xs)
  let ?slot = "\<lambda>r. W4_tile A ((r - k - 1) * num + (n - 1) mod num)"
  have lt: "(n - 1) mod num < num" using num by simp
  have neq: "?slot a \<noteq> ?slot b" if "a \<noteq> b" "k < a" "k < b" for a b
  proof
    assume "?slot a = ?slot b"
    then have "(a - k - 1) * num + (n - 1) mod num = (b - k - 1) * num + (n - 1) mod num"
      by simp
    then have "a - k - 1 = b - k - 1"
      using slot_index_inj[OF lt lt] by blast
    then show False using that by arith
  qed
  show ?case
  proof (cases "m = x")
    case True
    have "\<forall>r \<in> set xs. ?slot m \<noteq> ?slot r"
    proof
      fix r assume "r \<in> set xs"
      then have "m \<noteq> r" "k < m" "k < r" using Cons.prems True by auto
      then show "?slot m \<noteq> ?slot r" by (rule neq)
    qed
    then show ?thesis
      using True by (simp add: exec_workspace_gemm run_workspace_row_other)
  next
    case False
    then have mx: "m \<in> set xs" "distinct xs" "\<forall>r \<in> set xs. k < r"
      using Cons.prems by auto
    have "k < m" "k < x" using mx(1,3) Cons.prems(3) by auto
    with False have "?slot m \<noteq> ?slot x"
      by (rule neq)
    moreover have "H_tile PlasmaLower A n k \<noteq> ?slot x"
      using n by (simp add: H_tile_def W2_W3_neq)
    moreover have "L_tile m n \<noteq> ?slot x"
      by (simp add: L_tile_def)
    ultimately show ?thesis
      using Cons.IH[OF mx] by (simp add: exec_workspace_gemm)
  qed
qed

lemma run_workspace_gemms_frame:
  "\<forall>j. t \<noteq> W4_tile A j \<Longrightarrow>
   run K (concat (map (\<lambda>n. map (workspace_gemm PlasmaLower A k num n) rows) ns)) s t = s t"
  by (induction ns arbitrary: s) (simp_all add: run_workspace_row_frame)

lemma run_workspace_gemms_slot:
  fixes s :: "tile \<Rightarrow> 'a::ring_1"
  assumes num: "0 < num" and k: "k < 2 * d_mt A" and j: "j < num"
    and m: "m \<in> set rows" "distinct rows" and rows: "\<forall>r \<in> set rows. k < r"
  shows "n \<le> k + 1 \<Longrightarrow>
     run K (concat (map (\<lambda>n. map (workspace_gemm PlasmaLower A k num n) rows) [1..<n])) s
       (W4_tile A ((m - k - 1) * num + j))
     = (if j + 1 < n
        then (\<Sum>i = 1..<n. if (i - 1) mod num = j
                            then - (s (L_tile m i) * s (H_tile PlasmaLower A i k)) else 0)
        else s (W4_tile A ((m - k - 1) * num + j)))"
proof (induction n)
  case 0
  then show ?case by simp
next
  case (Suc n)
  let ?f = "\<lambda>i. if (i - 1) mod num = j
                then - (s (L_tile m i) * s (H_tile PlasmaLower A i k)) else 0"
  let ?s' = "run K (concat (map (\<lambda>n. map (workspace_gemm PlasmaLower A k num n) rows) [1..<n])) s"
  let ?t = "W4_tile A ((m - k - 1) * num + j)"
  show ?case
  proof (cases "1 \<le> n")
    case False
    then show ?thesis by simp
  next
    case True
    have nk: "n \<le> k" "n \<le> k + 1" using Suc.prems by simp_all
    have IH: "?s' ?t = (if j + 1 < n then sum ?f {1..<n} else s ?t)"
      using Suc.IH nk by simp
    have L: "?s' (L_tile m n) = s (L_tile m n)"
      by (rule run_workspace_gemms_frame) (simp add: L_tile_def)
    have n2: "n < 2 * d_mt A" using nk k by simp
    then have H: "?s' (H_tile PlasmaLower A n k) = s (H_tile PlasmaLower A n k)"
      by (intro run_workspace_gemms_frame) (simp add: H_tile_def W2_W3_neq)
    have split: "sum ?f {1..<Suc n} = sum ?f {1..<n} + ?f n"
      using True by (simp add: sum.atLeastLessThan_Suc)
    have run: "run K (concat (map (\<lambda>n. map (workspace_gemm PlasmaLower A k num n) rows) [1..<Suc n])) s
        = run K (map (workspace_gemm PlasmaLower A k num n) rows) ?s'"
      using True by simp
    show ?thesis
    proof (cases "(n - 1) mod num = j")
      case same: True
      have at: "run K (map (workspace_gemm PlasmaLower A k num n) rows) ?s' ?t
          = - (s (L_tile m n) * s (H_tile PlasmaLower A n k))
            + (if n < num + 1 then 0 else ?s' ?t)"
        using run_workspace_row_at[OF num n2 m rows, of K ?s'] same L H by simp
      show ?thesis
      proof (cases "n < num + 1")
        case first: True
        then have "n - 1 < num" using True by arith
        then have "n - 1 = j" using same by simp
        then have "\<not> j + 1 < n" "j + 1 < Suc n" using True by simp_all
        moreover have "sum ?f {1..<n} = 0"
        proof (rule sum.neutral, rule ballI)
          fix i assume "i \<in> {1..<n}"
          then have "i - 1 < num" "i - 1 \<noteq> j" using first \<open>n - 1 = j\<close> by auto
          then show "?f i = 0" by simp
        qed
        ultimately show ?thesis
          using run same first at split by simp
      next
        case later: False
        then have "j + 1 < n" using j by simp
        then show ?thesis
          using run same later at split IH by simp
      qed
    next
      case other: False
      have "j + 1 \<noteq> n"
      proof
        assume "j + 1 = n"
        then have "(n - 1) mod num = j" using j by auto
        with other show False by simp
      qed
      then have c: "(j + 1 < Suc n) = (j + 1 < n)" by arith
      have lt: "(n - 1) mod num < num" using num by simp
      have "\<forall>r \<in> set rows. ?t \<noteq> W4_tile A ((r - k - 1) * num + (n - 1) mod num)"
        using slot_index_inj[OF j lt] other by auto
      then have "run K (map (workspace_gemm PlasmaLower A k num n) rows) ?s' ?t = ?s' ?t"
        by (rule run_workspace_row_other)
      then show ?thesis
        using run other split IH c by simp
    qed
  qed
qed

lemma run_workspace_accumulate_slot:
  fixes s :: "tile \<Rightarrow> 'a::ring_1"
  assumes "0 < num" "num \<le> k" "k < m" "m < d_mt A" "j < num"
  shows "run K (workspace_accumulate PlasmaLower A k num) s (W4_tile A ((m - k - 1) * num + j))
     = (\<Sum>n = 1..<k + 1. if (n - 1) mod num = j
                          then - (s (L_tile m n) * s (H_tile PlasmaLower A n k)) else 0)"
proof -
  have "k < 2 * d_mt A" using assms(3,4) by simp
  moreover have "m \<in> set [k + 1..<d_mt A]" using assms(3,4) by simp
  moreover have "\<forall>r \<in> set [k + 1..<d_mt A]. k < r" by simp
  ultimately have "run K (concat (map (\<lambda>n. map (workspace_gemm PlasmaLower A k num n) [k + 1..<d_mt A])
                                   [1..<k + 1])) s (W4_tile A ((m - k - 1) * num + j))
     = (if j + 1 < k + 1
        then (\<Sum>n = 1..<k + 1. if (n - 1) mod num = j
                            then - (s (L_tile m n) * s (H_tile PlasmaLower A n k)) else 0)
        else s (W4_tile A ((m - k - 1) * num + j)))"
    using assms(1,5) by (intro run_workspace_gemms_slot) simp_all
  moreover have "j + 1 < k + 1" using assms(2,5) by simp
  ultimately show ?thesis
    by (simp add: workspace_accumulate_def)
qed

lemma run_workspace_accumulate_frame:
  "\<forall>j. t \<noteq> W4_tile A j \<Longrightarrow> run K (workspace_accumulate PlasmaLower A k num) s t = s t"
  unfolding workspace_accumulate_def by (rule run_workspace_gemms_frame)

lemma run_workspace_finish:
  assumes "k < m" "m < d_mt A"
  shows "run K (workspace_finish A k num) s (L_tile m (k + 1))
         = s (W4_tile A ((m - k - 1) * num)) + s (L_tile m (k + 1))"
proof -
  have "m \<in> set [k + 1..<d_mt A]" using assms by simp
  moreover have "inj_on (\<lambda>r. L_tile r (k + 1)) (set [k + 1..<d_mt A])"
    by (simp add: inj_on_def L_tile_inj)
  moreover have "\<forall>a \<in> set [k + 1..<d_mt A]. W4_tile A ((m - k - 1) * num) \<noteq> L_tile a (k + 1)"
    by (simp add: L_tile_def)
  ultimately show ?thesis
    unfolding workspace_finish_def Let_def
    by (intro run_geadd_rows_at) simp_all
qed

lemma run_update_workspace_value:
  fixes s :: "tile \<Rightarrow> 'a::ring_1"
  assumes "0 < num" "num \<le> k" "k < m" "m < d_mt A"
  shows "run K (workspace_accumulate PlasmaLower A k num @ workspace_reduce A k num
                @ workspace_finish A k num) s (L_tile m (k + 1))
     = s (L_tile m (k + 1))
       - (\<Sum>n = 1..<k + 1. s (L_tile m n) * s (H_tile PlasmaLower A n k))"
proof -
  let ?s1 = "run K (workspace_accumulate PlasmaLower A k num) s"
  let ?s2 = "run K (workspace_reduce A k num) ?s1"
  let ?g = "\<lambda>n. - (s (L_tile m n) * s (H_tile PlasmaLower A n k))"
  have "?s2 (W4_tile A ((m - k - 1) * num)) = (\<Sum>j<num. ?s1 (W4_tile A ((m - k - 1) * num + j)))"
    using assms by (intro run_workspace_reduce) simp_all
  also have "\<dots> = (\<Sum>j<num. \<Sum>n = 1..<k + 1. if (n - 1) mod num = j then ?g n else 0)"
  proof (rule sum.cong[OF refl])
    fix j assume "j \<in> {..<num}"
    then have "j < num" by simp
    with assms show "?s1 (W4_tile A ((m - k - 1) * num + j))
        = (\<Sum>n = 1..<k + 1. if (n - 1) mod num = j then ?g n else 0)"
      by (rule run_workspace_accumulate_slot)
  qed
  also have "\<dots> = (\<Sum>n = 1..<k + 1. ?g n)"
    using assms(1) by (rule round_robin_sum)
  also have "\<dots> = - (\<Sum>n = 1..<k + 1. s (L_tile m n) * s (H_tile PlasmaLower A n k))"
    by (rule sum_negf)
  finally have W: "?s2 (W4_tile A ((m - k - 1) * num))
      = - (\<Sum>n = 1..<k + 1. s (L_tile m n) * s (H_tile PlasmaLower A n k))" .
  define S where "S = (\<Sum>n = 1..<k + 1. s (L_tile m n) * s (H_tile PlasmaLower A n k))"
  have keep: "?s2 (L_tile m (k + 1)) = s (L_tile m (k + 1))"
    by (simp add: run_workspace_reduce_frame run_workspace_accumulate_frame L_tile_def)
  have "run K (workspace_accumulate PlasmaLower A k num @ workspace_reduce A k num
                @ workspace_finish A k num) s (L_tile m (k + 1))
        = run K (workspace_finish A k num) ?s2 (L_tile m (k + 1))"
    by (simp only: run_append)
  also have "\<dots> = ?s2 (W4_tile A ((m - k - 1) * num)) + ?s2 (L_tile m (k + 1))"
    using assms(3,4) by (rule run_workspace_finish)
  also have "\<dots> = - S + s (L_tile m (k + 1))"
    by (simp only: W keep S_def)
  also have "\<dots> = s (L_tile m (k + 1)) - S"
    by simp
  finally show ?thesis
    by (simp only: S_def)
qed

text \<open>The direct branch.\<close>

lemma exec_direct_gemm:
  "exec K (direct_gemm PlasmaLower A k n m) s =
     s(L_tile m (k + 1) :=
         - (s (L_tile m n) * s (H_tile PlasmaLower A n k)) + s (L_tile m (k + 1)))"
  by (simp add: direct_gemm_def Let_def op_val_def)

lemma run_direct_row_other:
  "\<forall>r \<in> set rows. t \<noteq> L_tile r (k + 1) \<Longrightarrow>
   run K (map (direct_gemm PlasmaLower A k n) rows) s t = s t"
  by (induction rows arbitrary: s) (simp_all add: exec_direct_gemm)

lemma run_direct_row_at:
  fixes s :: "tile \<Rightarrow> 'a::ring_1"
  assumes "1 \<le> n" "n \<le> k" "m \<in> set rows" "distinct rows"
  shows "run K (map (direct_gemm PlasmaLower A k n) rows) s (L_tile m (k + 1))
         = - (s (L_tile m n) * s (H_tile PlasmaLower A n k)) + s (L_tile m (k + 1))"
  using assms(3,4)
proof (induction rows arbitrary: s)
  case Nil
  then show ?case by simp
next
  case (Cons x xs)
  have Ln: "L_tile m n \<noteq> L_tile x (k + 1)"
    using assms(1,2) by (auto simp: L_tile_def)
  have H: "H_tile PlasmaLower A n k \<noteq> L_tile x (k + 1)"
    by (simp add: H_tile_def L_tile_def)
  show ?case
  proof (cases "m = x")
    case True
    have "\<forall>r \<in> set xs. L_tile m (k + 1) \<noteq> L_tile r (k + 1)"
      using Cons.prems True by (auto simp: L_tile_inj)
    then show ?thesis
      using True by (simp add: exec_direct_gemm run_direct_row_other)
  next
    case False
    then have "m \<in> set xs" "distinct xs" using Cons.prems by auto
    then show ?thesis
      using Cons.IH False Ln H by (simp add: exec_direct_gemm L_tile_inj)
  qed
qed

lemma run_direct_gemms_frame:
  "\<forall>r. t \<noteq> L_tile r (k + 1) \<Longrightarrow>
   run K (concat (map (\<lambda>n. map (direct_gemm PlasmaLower A k n) rows) ns)) s t = s t"
  by (induction ns arbitrary: s) (simp_all add: run_direct_row_other)

lemma run_direct_gemms_value:
  fixes s :: "tile \<Rightarrow> 'a::ring_1"
  assumes "m \<in> set rows" "distinct rows"
  shows "n \<le> k + 1 \<Longrightarrow>
     run K (concat (map (\<lambda>n. map (direct_gemm PlasmaLower A k n) rows) [1..<n])) s
       (L_tile m (k + 1))
     = s (L_tile m (k + 1))
       - (\<Sum>i = 1..<n. s (L_tile m i) * s (H_tile PlasmaLower A i k))"
proof (induction n)
  case 0
  then show ?case by simp
next
  case (Suc n)
  let ?s' = "run K (concat (map (\<lambda>n. map (direct_gemm PlasmaLower A k n) rows) [1..<n])) s"
  show ?case
  proof (cases "1 \<le> n")
    case False
    then show ?thesis by simp
  next
    case True
    have nk: "n \<le> k" using Suc.prems by simp
    have IH: "?s' (L_tile m (k + 1)) = s (L_tile m (k + 1))
        - (\<Sum>i = 1..<n. s (L_tile m i) * s (H_tile PlasmaLower A i k))"
      using Suc.IH nk by simp
    have L: "?s' (L_tile m n) = s (L_tile m n)"
      using True nk by (intro run_direct_gemms_frame) (auto simp: L_tile_def)
    have H: "?s' (H_tile PlasmaLower A n k) = s (H_tile PlasmaLower A n k)"
      by (intro run_direct_gemms_frame) (simp add: L_tile_def H_tile_def)
    have "run K (concat (map (\<lambda>n. map (direct_gemm PlasmaLower A k n) rows) [1..<Suc n])) s
        (L_tile m (k + 1))
        = run K (map (direct_gemm PlasmaLower A k n) rows) ?s' (L_tile m (k + 1))"
      using True by simp
    also have "\<dots> = - (?s' (L_tile m n) * ?s' (H_tile PlasmaLower A n k)) + ?s' (L_tile m (k + 1))"
      using True nk assms by (rule run_direct_row_at)
    finally show ?thesis
      using True IH L H by (simp add: sum.atLeastLessThan_Suc)
  qed
qed

lemma run_update_direct_value:
  fixes s :: "tile \<Rightarrow> 'a::ring_1"
  assumes "k < m" "m < d_mt A"
  shows "run K (update_direct PlasmaLower A k) s (L_tile m (k + 1))
     = s (L_tile m (k + 1))
       - (\<Sum>n = 1..<k + 1. s (L_tile m n) * s (H_tile PlasmaLower A n k))"
  unfolding update_direct_def
  using assms by (intro run_direct_gemms_value) simp_all

text \<open>For \<open>k \<ge> 1\<close> and at least one slot per tile row the two branches agree.\<close>

lemma column_update_paths_agree:
  fixes s :: "tile \<Rightarrow> 'a::ring_1"
  assumes "1 \<le> k" "k < m" "m < d_mt A" "1 \<le> c_div (tot A W) (int (d_mt A - k - 1))"
  shows "\<exists>ts. update_workspace PlasmaLower A W k = Inr ts \<and>
           run K ts s (L_tile m (k + 1)) = run K (update_direct PlasmaLower A k) s (L_tile m (k + 1)) \<and>
           run K ts s (L_tile m (k + 1))
             = s (L_tile m (k + 1))
               - (\<Sum>n = 1..<k + 1. s (L_tile m n) * s (H_tile PlasmaLower A n k))"
proof -
  let ?num = "nat (imin (int k) (c_div (tot A W) (int (d_mt A - k - 1))))"
  have pos: "0 < imin (int k) (c_div (tot A W) (int (d_mt A - k - 1)))"
    using assms(1,4) by (simp add: imin_def)
  then have num: "0 < ?num" "?num \<le> k"
    by (auto simp: imin_def)
  have "d_mt A - k - 1 \<noteq> 0" using assms(2,3) by simp
  then have "update_workspace PlasmaLower A W k
      = Inr (workspace_accumulate PlasmaLower A k ?num @ workspace_reduce A k ?num
             @ workspace_finish A k ?num)"
    using pos by (simp add: update_workspace_def Let_def)
  then show ?thesis
    using run_update_workspace_value[OF num assms(2,3), of K s]
      run_update_direct_value[OF assms(2,3), of K s]
    by simp
qed

text \<open>For \<open>k = 0\<close> the workspace branch adds the unwritten slot \<open>W4(0)\<close>.\<close>

lemma update_workspace_first_column:
  fixes s :: "tile \<Rightarrow> 'a::ring_1"
  assumes "0 < m" "m < d_mt A" "0 \<le> tot A W"
  shows "\<exists>ts. update_workspace PlasmaLower A W 0 = Inr ts \<and>
           run K ts s (L_tile m 1) = s (W4_tile A 0) + s (L_tile m 1) \<and>
           run K (update_direct PlasmaLower A 0) s (L_tile m 1) = s (L_tile m 1)"
proof -
  have "0 < int (d_mt A - 1)" using assms(1,2) by simp
  then have "0 \<le> c_div (tot A W) (int (d_mt A - 1))"
    using assms(3) by (simp add: c_div_def pos_imp_zdiv_nonneg_iff)
  then have "imin 0 (c_div (tot A W) (int (d_mt A - 1))) = 0"
    by (simp add: imin_def)
  moreover have "d_mt A - 1 \<noteq> 0" using assms by simp
  ultimately have "update_workspace PlasmaLower A W 0
      = Inr (workspace_accumulate PlasmaLower A 0 0 @ workspace_reduce A 0 0
             @ workspace_finish A 0 0)"
    by (simp add: update_workspace_def Let_def)
  moreover have "workspace_accumulate PlasmaLower A 0 0 = []"
    by (simp add: workspace_accumulate_def)
  moreover have "workspace_reduce A 0 0 = []"
    by (simp add: workspace_reduce_def num_rounds_def)
  moreover have "run K (workspace_finish A 0 0) s (L_tile m 1) = s (W4_tile A 0) + s (L_tile m 1)"
    using run_workspace_finish[of 0 m A K 0 s] assms by simp
  moreover have "update_direct PlasmaLower A 0 = []"
    by (simp add: update_direct_def)
  ultimately show ?thesis
    by simp
qed


section \<open>The congruence stage\<close>

lemma symmetric_solve_cases:
  "symmetric_solve A T k =
     (if k > 1 then multiply_chain A T k @ congruence_reduction A T k
      else if k = 1 then congruence_reduction A T k
      else [])"
  by (auto simp: symmetric_solve_def)

lemma run_multiply_chain:
  fixes s :: "tile \<Rightarrow> 'a::ring_1"
  shows "run K (multiply_chain A T k) s =
     s(W_tile 0 := s (L_tile k k) * s (T_tile k (k - 1)),
       T_tile k k := s (T_tile k k)
                     - (s (L_tile k k) * s (T_tile k (k - 1))) * k_conj K (s (L_tile k (k - 1))))"
  by (simp add: multiply_chain_def Let_def op_val_def W_tile_def L_tile_def T_tile_def)

lemma run_congruence_reduction:
  "run K (congruence_reduction A T k) s =
     s(T_tile k k := k_expand K (plasma_tile_mview A k)
                       (k_zhegst K 1 PlasmaLower (plasma_tile_mview A k)
                          (s (T_tile k k)) (s (L_tile k k))))"
  by (simp add: congruence_reduction_def Let_def L_tile_def T_tile_def)

section \<open>Sequencing and faults\<close>

lemma then_tasks_Inr [simp]: "then_tasks (Inr ts) (Inr us) = Inr (ts @ us)"
  by (simp add: then_tasks_def)

lemma then_tasks_eq_Inr:
  "then_tasks x y = Inr zs \<longleftrightarrow> (\<exists>ts us. x = Inr ts \<and> y = Inr us \<and> zs = ts @ us)"
  by (auto simp: then_tasks_def split: sum.splits)

lemma then_tasks_isl: "isl (then_tasks x y) = (isl x \<or> isl y)"
  by (auto simp: then_tasks_def split: sum.splits)

lemma column_loop_isl: "isl (column_loop body ks) = (\<exists>k \<in> set ks. isl (body k))"
  by (induction ks) (simp_all add: then_tasks_isl)

lemma diagonal_isl:
  "isl (diagonal uplo A T W k) = (k > 1 \<and> imin (tot A W) (int k - 1) \<le> 0)"
  by (auto simp: diagonal_def Let_def)

lemma update_workspace_isl:
  "isl (update_workspace uplo A W k) =
     (d_mt A - k - 1 = 0 \<or> imin (int k) (c_div (tot A W) (int (d_mt A - k - 1))) < 0
      \<or> (imin (int k) (c_div (tot A W) (int (d_mt A - k - 1))) = 0 \<and> k \<ge> 1))"
  by (auto simp: update_workspace_def Let_def)

lemma lower_column_isl:
  "isl (lower_column A T W plasma k) =
     (isl (diagonal PlasmaLower A T W k)
      \<or> (k + 1 < d_nt A \<and> d_mt A - k < ctx_max_threads plasma
           \<and> isl (update_workspace PlasmaLower A W k)))"
  by (auto simp: lower_column_def then_tasks_isl column_update_def)

text \<open>A workspace with enough reduction slots: the routine runs through without a fault.\<close>

lemma lower_column_returns:
  assumes "d_nt A \<le> d_mt A" "1 \<le> tot A W" "int (d_mt A) - 2 \<le> tot A W"
  shows "\<not> isl (lower_column A T W plasma k)"
proof -
  have d: "\<not> isl (diagonal PlasmaLower A T W k)"
    using assms(2) by (auto simp: diagonal_isl imin_def)
  have w: "\<not> isl (update_workspace PlasmaLower A W k)" if k: "k + 1 < d_nt A"
  proof -
    let ?r = "int (d_mt A - k - 1)"
    have r: "0 < ?r" using k assms(1) by simp
    have c: "c_div (tot A W) ?r = tot A W div ?r"
      using r assms(2) by (simp add: c_div_def)
    have "0 \<le> tot A W div ?r"
      using r assms(2) by (simp add: pos_imp_zdiv_nonneg_iff)
    moreover have "0 < tot A W div ?r" if "1 \<le> k"
    proof -
      have "?r = int (d_mt A) - int k - 1" using k assms(1) by simp
      then have "?r \<le> tot A W" using that assms(3) by linarith
      then show ?thesis using r by (simp add: pos_imp_zdiv_pos_iff)
    qed
    ultimately show ?thesis
      using r c by (auto simp: update_workspace_isl imin_def)
  qed
  show ?thesis
    using d w by (auto simp: lower_column_isl)
qed

lemma plasma_pzhetrf_aa_returns:
  assumes "d_nt A \<le> d_mt A" "1 \<le> tot A W" "int (d_mt A) - 2 \<le> tot A W"
  shows "\<exists>ts. plasma_pzhetrf_aa PlasmaLower A T W plasma status = Inr ts"
proof -
  have "\<not> isl (plasma_pzhetrf_aa PlasmaLower A T W plasma status)"
    using lower_column_returns[OF assms]
    by (simp add: plasma_pzhetrf_aa_def column_loop_isl)
  then show ?thesis
    by (cases "plasma_pzhetrf_aa PlasmaLower A T W plasma status") simp_all
qed

lemma column_loop_contains:
  assumes "column_loop body ks = Inr ts" "k \<in> set ks" "body k = Inr us"
  shows "set us \<subseteq> set ts"
  using assms
proof (induction ks arbitrary: ts)
  case Nil
  then show ?case by simp
next
  case (Cons x xs)
  then obtain a b where ab: "body x = Inr a" "column_loop body xs = Inr b" "ts = a @ b"
    by (auto simp: then_tasks_eq_Inr)
  show ?case
  proof (cases "k = x")
    case True
    then show ?thesis using ab Cons.prems(3) by auto
  next
    case False
    then have "set us \<subseteq> set b" using Cons ab by auto
    then show ?thesis using ab by auto
  qed
qed

section \<open>The band finalization within a column\<close>

lemma lower_column_ends_with_band_finalize:
  assumes "k + 1 < d_nt A" "lower_column A T W plasma k = Inr ts"
  shows "\<exists>pre. ts = pre @ band_finalize A T k"
  using assms unfolding lower_column_def
  by (auto simp: then_tasks_eq_Inr)

lemma band_finalize_submitted:
  assumes "plasma_pzhetrf_aa PlasmaLower A T W plasma PlasmaSuccess = Inr ts"
    "k < d_mt A" "k + 1 < d_nt A"
  shows "set (band_finalize A T k) \<subseteq> set ts"
proof -
  have loop: "column_loop (lower_column A T W plasma) [0..<d_mt A] = Inr ts"
    using assms(1) by (simp add: plasma_pzhetrf_aa_def)
  then have "\<not> isl (lower_column A T W plasma k)"
    using assms(2) column_loop_isl[of "lower_column A T W plasma" "[0..<d_mt A]"] by auto
  then obtain us where us: "lower_column A T W plasma k = Inr us"
    by (cases "lower_column A T W plasma k") simp_all
  then obtain pre where "us = pre @ band_finalize A T k"
    using lower_column_ends_with_band_finalize assms(3) by blast
  moreover have "set us \<subseteq> set ts"
    using loop _ us by (rule column_loop_contains) (use assms(2) in simp)
  ultimately show ?thesis by auto
qed

section \<open>The tiles of the band factor named by the routine\<close>

lemma tournament_tasks:
  assumes "\<And>m1 m2. \<forall>t \<in> set (body m1 m2). P t"
  shows "\<forall>t \<in> set (tournament R np skip body). P t"
  using assms by (induction R arbitrary: np skip) auto

lemma band_offdiagonals: "\<forall>t \<in> set (offdiagonals uplo A T k). band_task t"
  by (auto simp: offdiagonals_def offdiagonal_H_def Let_def band_task_def T_tile_def L_tile_def
      H_tile_def W2_tile_def)

lemma band_diagonal:
  "diagonal uplo A T W k = Inr ts \<Longrightarrow> \<forall>t \<in> set ts. band_task t"
proof -
  have red: "\<forall>t \<in> set (diagonal_reduce A k num). band_task t" for num
    unfolding diagonal_reduce_def
    by (rule tournament_tasks) (simp add: diagonal_bracket_def Let_def band_task_def W3_tile_def)
  have acc: "\<forall>t \<in> set (diagonal_accumulate uplo A k num). band_task t" for num
    by (auto simp: diagonal_accumulate_def diagonal_gemm_def Let_def band_task_def L_tile_def
        H_tile_def W2_tile_def W3_tile_def)
  have fin: "\<forall>t \<in> set (diagonal_finish A T k). band_task t"
    by (auto simp: diagonal_finish_def Let_def band_task_def T_tile_def A_tile_def W3_tile_def)
  have cp: "\<forall>t \<in> set (diagonal_copy A T k). band_task t"
    by (auto simp: diagonal_copy_def Let_def band_task_def T_tile_def A_tile_def)
  assume "diagonal uplo A T W k = Inr ts"
  then show ?thesis
    using red acc fin cp by (auto simp: diagonal_def Let_def split: if_splits)
qed

lemma band_symmetric_solve: "\<forall>t \<in> set (symmetric_solve A T k). band_task t"
  by (auto simp: symmetric_solve_def multiply_chain_def congruence_reduction_def Let_def
      band_task_def T_tile_def L_tile_def W_tile_def)

lemma band_H_kk:
  "\<forall>t \<in> set (H_kk_first uplo A T k). band_task t"
  "\<forall>t \<in> set (H_kk_second uplo A T k). band_task t"
  by (auto simp: H_kk_first_def H_kk_second_def Let_def band_task_def T_tile_def L_tile_def
      H_tile_def W2_tile_def)

lemma band_column_update:
  "column_update uplo A W plasma k = Inr ts \<Longrightarrow> \<forall>t \<in> set ts. band_task t"
proof -
  have red: "\<forall>t \<in> set (workspace_reduce A k num). band_task t" for num
    unfolding workspace_reduce_def
    by (rule tournament_tasks) (auto simp: workspace_bracket_def Let_def band_task_def W4_tile_def)
  have acc: "\<forall>t \<in> set (workspace_accumulate uplo A k num). band_task t" for num
    by (auto simp: workspace_accumulate_def workspace_gemm_def Let_def band_task_def L_tile_def
        H_tile_def W2_tile_def W4_tile_def)
  have fin: "\<forall>t \<in> set (workspace_finish A k num). band_task t" for num
    by (auto simp: workspace_finish_def Let_def band_task_def L_tile_def W4_tile_def)
  have dir: "\<forall>t \<in> set (update_direct uplo A k). band_task t"
    by (auto simp: update_direct_def direct_gemm_def Let_def band_task_def L_tile_def
        H_tile_def W2_tile_def)
  assume "column_update uplo A W plasma k = Inr ts"
  then show ?thesis
    using red acc fin dir
    by (auto simp: column_update_def update_workspace_def Let_def split: if_splits)
qed

lemma band_panel:
  "\<forall>t \<in> set (panel_factorization A plasma k). band_task t"
  "\<forall>t \<in> set (apply_pivoting A k). band_task t"
  by (auto simp: panel_factorization_def apply_pivoting_def Let_def band_task_def)

lemma band_band_finalize: "\<forall>t \<in> set (band_finalize A T k). band_task t"
  by (auto simp: band_finalize_def Let_def band_task_def T_tile_def L_tile_def)

lemma band_lower_column:
  assumes "lower_column A T W plasma k = Inr ts"
  shows "\<forall>t \<in> set ts. band_task t"
proof (cases "k + 1 < d_nt A")
  case True
  with assms obtain d c where
    d: "diagonal PlasmaLower A T W k = Inr d" and c: "column_update PlasmaLower A W plasma k = Inr c"
    and ts: "ts = offdiagonals PlasmaLower A T k @ d @ symmetric_solve A T k
                  @ H_kk_first PlasmaLower A T k @ H_kk_second PlasmaLower A T k @ c
                  @ panel_factorization A plasma k @ apply_pivoting A k @ band_finalize A T k"
    unfolding lower_column_def by (auto simp: then_tasks_eq_Inr)
  show ?thesis
    unfolding ts
    using band_offdiagonals band_diagonal[OF d] band_symmetric_solve band_H_kk
      band_column_update[OF c] band_panel band_band_finalize
    by (simp add: ball_Un)
next
  case False
  with assms obtain d where
    d: "diagonal PlasmaLower A T W k = Inr d"
    and ts: "ts = offdiagonals PlasmaLower A T k @ d @ symmetric_solve A T k
                  @ H_kk_first PlasmaLower A T k"
    unfolding lower_column_def by (auto simp: then_tasks_eq_Inr)
  show ?thesis
    unfolding ts
    using band_offdiagonals band_diagonal[OF d] band_symmetric_solve band_H_kk
    by (simp add: ball_Un)
qed

lemma band_column_loop:
  "column_loop (lower_column A T W plasma) ks = Inr ts \<Longrightarrow> \<forall>t \<in> set ts. band_task t"
proof (induction ks arbitrary: ts)
  case Nil
  then show ?case by simp
next
  case (Cons k ks)
  then obtain a b where "lower_column A T W plasma k = Inr a"
    "column_loop (lower_column A T W plasma) ks = Inr b" "ts = a @ b"
    by (auto simp: then_tasks_eq_Inr)
  then show ?case
    using band_lower_column Cons.IH by (simp add: ball_Un)
qed

section \<open>The panel task\<close>





section \<open>Overwrite, then accumulate\<close>

lemma ota_cong_seen:
  "set seen = set seen' \<Longrightarrow>
   overwrite_then_accumulate seen ts = overwrite_then_accumulate seen' ts"
proof (induction seen ts arbitrary: seen' rule: overwrite_then_accumulate.induct)
  case (2 seen ta tb m n k alpha a lda b ldb beta c ldc ts)
  then have "overwrite_then_accumulate (c # seen) ts = overwrite_then_accumulate (c # seen') ts"
    by simp
  then show ?case using "2.prems" by simp
qed simp_all

lemma ota_append:
  "overwrite_then_accumulate seen (ts @ us) =
     (overwrite_then_accumulate seen ts \<and>
      overwrite_then_accumulate (concat (map task_writes ts) @ seen) us)"
proof (induction seen ts rule: overwrite_then_accumulate.induct)
  case (2 seen ta tb m n k alpha a lda b ldb beta c ldc ts)
  have "overwrite_then_accumulate (concat (map task_writes ts) @ c # seen) us
      = overwrite_then_accumulate (c # concat (map task_writes ts) @ seen) us"
    by (rule ota_cong_seen) auto
  then show ?case using 2 by simp
qed simp_all

lemma diagonal_gemm_writes [simp]:
  "task_writes (diagonal_gemm uplo A k num m) = [W3_tile A ((m - 1) mod num)]"
  by (simp add: diagonal_gemm_def Let_def)

lemma diagonal_gemms_writes:
  "set (concat (map task_writes (map (diagonal_gemm uplo A k num) ms)))
     = (\<lambda>m. W3_tile A ((m - 1) mod num)) ` set ms"
  by (induction ms) simp_all

lemma ota_diagonal_gemm:
  "overwrite_then_accumulate seen [diagonal_gemm uplo A k num m] =
     ((W3_tile A ((m - 1) mod num) \<in> set seen) = (\<not> m < num + 1))"
  by (auto simp: diagonal_gemm_def Let_def)

lemma ota_diagonal_gemms:
  assumes "0 < num"
  shows "overwrite_then_accumulate [] (map (diagonal_gemm uplo A k num) [1..<n])"
proof (induction n)
  case 0
  then show ?case by simp
next
  case (Suc n)
  show ?case
  proof (cases "1 \<le> n")
    case False
    then show ?thesis by simp
  next
    case True
    let ?seen = "concat (map task_writes (map (diagonal_gemm uplo A k num) [1..<n]))"
    have seen: "set ?seen = (\<lambda>m. W3_tile A ((m - 1) mod num)) ` {1..<n}"
      using diagonal_gemms_writes[of uplo A k num "[1..<n]"] by simp
    have "(W3_tile A ((n - 1) mod num) \<in> set ?seen) = (\<not> n < num + 1)"
    proof
      assume "W3_tile A ((n - 1) mod num) \<in> set ?seen"
      then obtain m where m: "1 \<le> m" "m < n" "(n - 1) mod num = (m - 1) mod num"
        unfolding seen by auto
      show "\<not> n < num + 1"
      proof
        assume "n < num + 1"
        then have "n - 1 < num" "m - 1 < num" using m True by arith+
        then have "n - 1 = m - 1" using m(3) by simp
        then show False using m True by arith
      qed
    next
      assume "\<not> n < num + 1"
      then have n: "num < n" by simp
      let ?m = "(n - 1) mod num + 1"
      have "(n - 1) mod num < num" using assms by simp
      then have "1 \<le> ?m" "?m < n" using n by arith+
      moreover have "(?m - 1) mod num = (n - 1) mod num" by simp
      ultimately have "?m \<in> {1..<n}" "W3_tile A ((n - 1) mod num) = W3_tile A ((?m - 1) mod num)"
        by simp_all
      then show "W3_tile A ((n - 1) mod num) \<in> set ?seen"
        unfolding seen by (rule image_eqI[rotated])
    qed
    then have "overwrite_then_accumulate (?seen @ []) [diagonal_gemm uplo A k num n]"
      by (simp add: ota_diagonal_gemm)
    then show ?thesis
      using True Suc.IH by (simp add: ota_append)
  qed
qed

lemma workspace_gemm_writes [simp]:
  "task_writes (workspace_gemm uplo A k num n m)
     = [W4_tile A ((m - k - 1) * num + (n - 1) mod num)]"
  by (simp add: workspace_gemm_def Let_def)

lemma ota_workspace_gemm:
  "overwrite_then_accumulate seen (workspace_gemm uplo A k num n m # ts) =
     (((W4_tile A ((m - k - 1) * num + (n - 1) mod num) \<in> set seen) = (\<not> n < num + 1)) \<and>
      overwrite_then_accumulate (W4_tile A ((m - k - 1) * num + (n - 1) mod num) # seen) ts)"
  by (auto simp: workspace_gemm_def Let_def)

lemma workspace_slot_eq:
  assumes "0 < num" "k < a" "k < b"
  shows "(W4_tile A ((a - k - 1) * num + i mod num) = W4_tile A ((b - k - 1) * num + j mod num))
         = (a = b \<and> i mod num = j mod num)"
proof -
  have lt: "i mod num < num" "j mod num < num" using assms(1) by simp_all
  have "a - k - 1 = b - k - 1 \<and> i mod num = j mod num"
    if "(a - k - 1) * num + i mod num = (b - k - 1) * num + j mod num"
    using slot_index_inj[OF lt that] .
  moreover have "a = b" if "a - k - 1 = b - k - 1"
    using that assms(2,3) by arith
  ultimately show ?thesis
    by auto
qed

lemma ota_workspace_row:
  assumes "0 < num"
  shows "distinct rows \<Longrightarrow> \<forall>r \<in> set rows. k < r \<Longrightarrow>
     \<forall>m \<in> set rows. (W4_tile A ((m - k - 1) * num + (n - 1) mod num) \<in> set seen) = (\<not> n < num + 1) \<Longrightarrow>
     overwrite_then_accumulate seen (map (workspace_gemm uplo A k num n) rows)"
proof (induction rows arbitrary: seen)
  case Nil
  then show ?case by simp
next
  case (Cons x xs)
  let ?slot = "\<lambda>m. W4_tile A ((m - k - 1) * num + (n - 1) mod num)"
  have "\<forall>m \<in> set xs. (?slot m \<in> set (?slot x # seen)) = (\<not> n < num + 1)"
  proof
    fix m assume m: "m \<in> set xs"
    then have "m \<noteq> x" "k < m" "k < x" using Cons.prems by auto
    then have "?slot m \<noteq> ?slot x"
      using workspace_slot_eq[OF assms, of k m x A "n - 1" "n - 1"] by simp
    then show "(?slot m \<in> set (?slot x # seen)) = (\<not> n < num + 1)"
      using Cons.prems(3) m by simp
  qed
  then have "overwrite_then_accumulate (?slot x # seen) (map (workspace_gemm uplo A k num n) xs)"
    using Cons.prems by (intro Cons.IH) simp_all
  then show ?case
    using Cons.prems(3) by (simp add: ota_workspace_gemm)
qed

lemma workspace_gemms_writes:
  "set (concat (map task_writes (concat (map (\<lambda>n. map (workspace_gemm uplo A k num n) rows) ns))))
     = (\<Union>n \<in> set ns. (\<lambda>m. W4_tile A ((m - k - 1) * num + (n - 1) mod num)) ` set rows)"
proof (induction ns)
  case Nil
  then show ?case by simp
next
  case (Cons n ns)
  have "set (concat (map task_writes (map (workspace_gemm uplo A k num n) rows)))
        = (\<lambda>m. W4_tile A ((m - k - 1) * num + (n - 1) mod num)) ` set rows"
    by (induction rows) simp_all
  then show ?case using Cons by simp
qed

lemma ota_workspace_gemms:
  assumes "0 < num" "distinct rows" "\<forall>r \<in> set rows. k < r"
  shows "overwrite_then_accumulate []
           (concat (map (\<lambda>n. map (workspace_gemm uplo A k num n) rows) [1..<n]))"
proof (induction n)
  case 0
  then show ?case by simp
next
  case (Suc n)
  show ?case
  proof (cases "1 \<le> n")
    case False
    then show ?thesis by simp
  next
    case True
    let ?prev = "concat (map (\<lambda>n. map (workspace_gemm uplo A k num n) rows) [1..<n])"
    let ?seen = "concat (map task_writes ?prev)"
    have seen: "set ?seen
        = (\<Union>i \<in> {1..<n}. (\<lambda>m. W4_tile A ((m - k - 1) * num + (i - 1) mod num)) ` set rows)"
      using workspace_gemms_writes[of uplo A k num rows "[1..<n]"] by simp
    have "\<forall>m \<in> set rows.
        (W4_tile A ((m - k - 1) * num + (n - 1) mod num) \<in> set (?seen @ [])) = (\<not> n < num + 1)"
    proof
      fix m assume m: "m \<in> set rows"
      then have km: "k < m" using assms(3) by simp
      show "(W4_tile A ((m - k - 1) * num + (n - 1) mod num) \<in> set (?seen @ [])) = (\<not> n < num + 1)"
      proof
        assume "W4_tile A ((m - k - 1) * num + (n - 1) mod num) \<in> set (?seen @ [])"
        then obtain i r where ir: "1 \<le> i" "i < n" "r \<in> set rows"
          "W4_tile A ((m - k - 1) * num + (n - 1) mod num)
           = W4_tile A ((r - k - 1) * num + (i - 1) mod num)"
          unfolding seen by auto
        then have "k < r" using assms(3) by simp
        then have eq: "(n - 1) mod num = (i - 1) mod num"
          using workspace_slot_eq[OF assms(1) km, of r A "n - 1" "i - 1"] ir(4) by simp
        show "\<not> n < num + 1"
        proof
          assume "n < num + 1"
          then have "n - 1 < num" "i - 1 < num" using ir True by arith+
          then have "n - 1 = i - 1" using eq by simp
          then show False using ir True by arith
        qed
      next
        assume "\<not> n < num + 1"
        then have n: "num < n" by simp
        let ?i = "(n - 1) mod num + 1"
        have "(n - 1) mod num < num" using assms(1) by simp
        then have "?i \<in> {1..<n}" using n by simp
        moreover have "W4_tile A ((m - k - 1) * num + (n - 1) mod num)
            \<in> (\<lambda>m. W4_tile A ((m - k - 1) * num + (?i - 1) mod num)) ` set rows"
        proof (rule image_eqI)
          show "W4_tile A ((m - k - 1) * num + (n - 1) mod num)
              = W4_tile A ((m - k - 1) * num + (?i - 1) mod num)"
            by simp
          show "m \<in> set rows" by (rule m)
        qed
        ultimately have "W4_tile A ((m - k - 1) * num + (n - 1) mod num)
            \<in> (\<Union>i \<in> {1..<n}. (\<lambda>m. W4_tile A ((m - k - 1) * num + (i - 1) mod num)) ` set rows)"
          by (rule UN_I)
        then show "W4_tile A ((m - k - 1) * num + (n - 1) mod num) \<in> set (?seen @ [])"
          by (simp only: append_Nil2 seen)
      qed
    qed
    then have "overwrite_then_accumulate (?seen @ []) (map (workspace_gemm uplo A k num n) rows)"
      using assms by (intro ota_workspace_row) simp_all
    then show ?thesis
      using True Suc.IH by (simp add: ota_append)
  qed
qed

lemma stale_workspace_other:
  "stale_workspace A r s (TileA i j) = s (TileA i j)"
  "stale_workspace A r s (TileT i j) = s (TileT i j)"
  "m < 2 * d_mt A \<Longrightarrow> stale_workspace A r s (W2_tile A m) = s (W2_tile A m)"
  by (simp_all add: stale_workspace_def W2_tile_def)

lemma accumulation_loops_fresh:
  fixes s r :: "tile \<Rightarrow> 'a::ring_1"
  assumes "0 < num"
  shows "overwrite_then_accumulate [] (diagonal_accumulate uplo A k num) \<and>
         overwrite_then_accumulate [] (workspace_accumulate uplo A k num) \<and>
         (\<forall>j. j < num \<and> num < k \<and> k < d_mt A \<longrightarrow>
            run K (diagonal_accumulate PlasmaLower A k num) (stale_workspace A r s) (W3_tile A j)
            = run K (diagonal_accumulate PlasmaLower A k num) s (W3_tile A j)) \<and>
         (\<forall>m j. j < num \<and> num \<le> k \<and> k < m \<and> m < d_mt A \<longrightarrow>
            run K (workspace_accumulate PlasmaLower A k num) (stale_workspace A r s)
              (W4_tile A ((m - k - 1) * num + j))
            = run K (workspace_accumulate PlasmaLower A k num) s
                (W4_tile A ((m - k - 1) * num + j)))"
proof (intro conjI allI impI)
  show "overwrite_then_accumulate [] (diagonal_accumulate uplo A k num)"
    unfolding diagonal_accumulate_def using assms by (rule ota_diagonal_gemms)
next
  show "overwrite_then_accumulate [] (workspace_accumulate uplo A k num)"
    unfolding workspace_accumulate_def using assms by (rule ota_workspace_gemms) simp_all
next
  fix j assume h: "j < num \<and> num < k \<and> k < d_mt A"
  then have k2: "k \<le> 2 * d_mt A" by simp
  have "run K (diagonal_accumulate PlasmaLower A k num) s' (W3_tile A j)
        = (\<Sum>m = 1..<k. if (m - 1) mod num = j
                          then - (s' (L_tile k m) * s' (H_tile PlasmaLower A m k)) else 0)" for s' :: "tile \<Rightarrow> 'a"
    using assms h k2 by (intro run_diagonal_accumulate_slot) simp_all
  moreover have "(\<Sum>m = 1..<k. if (m - 1) mod num = j
          then - (stale_workspace A r s (L_tile k m) * stale_workspace A r s (H_tile PlasmaLower A m k))
          else 0)
      = (\<Sum>m = 1..<k. if (m - 1) mod num = j
          then - (s (L_tile k m) * s (H_tile PlasmaLower A m k)) else 0)"
  proof (rule sum.cong[OF refl])
    fix m assume "m \<in> {1..<k}"
    then have "m < 2 * d_mt A" using h by simp
    then show "(if (m - 1) mod num = j
          then - (stale_workspace A r s (L_tile k m) * stale_workspace A r s (H_tile PlasmaLower A m k))
          else 0)
        = (if (m - 1) mod num = j then - (s (L_tile k m) * s (H_tile PlasmaLower A m k)) else 0)"
      by (simp add: stale_workspace_other L_tile_def H_tile_def)
  qed
  ultimately show "run K (diagonal_accumulate PlasmaLower A k num) (stale_workspace A r s) (W3_tile A j)
            = run K (diagonal_accumulate PlasmaLower A k num) s (W3_tile A j)"
    by simp
next
  fix m j assume h: "j < num \<and> num \<le> k \<and> k < m \<and> m < d_mt A"
  have "run K (workspace_accumulate PlasmaLower A k num) s' (W4_tile A ((m - k - 1) * num + j))
        = (\<Sum>n = 1..<k + 1. if (n - 1) mod num = j
                          then - (s' (L_tile m n) * s' (H_tile PlasmaLower A n k)) else 0)" for s' :: "tile \<Rightarrow> 'a"
    using assms h by (intro run_workspace_accumulate_slot) simp_all
  moreover have "(\<Sum>n = 1..<k + 1. if (n - 1) mod num = j
          then - (stale_workspace A r s (L_tile m n) * stale_workspace A r s (H_tile PlasmaLower A n k))
          else 0)
      = (\<Sum>n = 1..<k + 1. if (n - 1) mod num = j
          then - (s (L_tile m n) * s (H_tile PlasmaLower A n k)) else 0)"
  proof (rule sum.cong[OF refl])
    fix n assume "n \<in> {1..<k + 1}"
    then have "n < 2 * d_mt A" using h by simp
    then show "(if (n - 1) mod num = j
          then - (stale_workspace A r s (L_tile m n) * stale_workspace A r s (H_tile PlasmaLower A n k))
          else 0)
        = (if (n - 1) mod num = j then - (s (L_tile m n) * s (H_tile PlasmaLower A n k)) else 0)"
      by (simp add: stale_workspace_other L_tile_def H_tile_def)
  qed
  ultimately show "run K (workspace_accumulate PlasmaLower A k num) (stale_workspace A r s)
              (W4_tile A ((m - k - 1) * num + j))
            = run K (workspace_accumulate PlasmaLower A k num) s
                (W4_tile A ((m - k - 1) * num + j))"
    by (simp only:)
qed

lemma run_diagonal_sum_stale:
  fixes s r :: "tile \<Rightarrow> 'a::ring_1"
  assumes "0 < num" "num < k" "k < d_mt A"
  shows "run K (diagonal_accumulate PlasmaLower A k num @ diagonal_reduce A k num
                @ diagonal_finish A T k) (stale_workspace A r s) (T_tile k k)
       = run K (diagonal_accumulate PlasmaLower A k num @ diagonal_reduce A k num
                @ diagonal_finish A T k) s (T_tile k k)"
proof -
  have k2: "k \<le> 2 * d_mt A" using assms(3) by simp
  have "(\<Sum>m = 1..<k. stale_workspace A r s (L_tile k m) * stale_workspace A r s (H_tile PlasmaLower A m k))
      = (\<Sum>m = 1..<k. s (L_tile k m) * s (H_tile PlasmaLower A m k))"
  proof (rule sum.cong[OF refl])
    fix m assume "m \<in> {1..<k}"
    then have "m < 2 * d_mt A" using assms(3) by simp
    then show "stale_workspace A r s (L_tile k m) * stale_workspace A r s (H_tile PlasmaLower A m k)
        = s (L_tile k m) * s (H_tile PlasmaLower A m k)"
      by (simp add: stale_workspace_other L_tile_def H_tile_def)
  qed
  moreover have "stale_workspace A r s (A_tile k k) = s (A_tile k k)"
    "stale_workspace A r s (T_tile k k) = s (T_tile k k)"
    by (simp_all add: stale_workspace_other A_tile_def T_tile_def)
  ultimately show ?thesis
    by (simp only: run_diagonal_sum[OF assms(1,2) k2])
qed

lemma run_update_workspace_stale:
  fixes s r :: "tile \<Rightarrow> 'a::ring_1"
  assumes "0 < num" "num \<le> k" "k < m" "m < d_mt A"
  shows "run K (workspace_accumulate PlasmaLower A k num @ workspace_reduce A k num
                @ workspace_finish A k num) (stale_workspace A r s) (L_tile m (k + 1))
       = run K (workspace_accumulate PlasmaLower A k num @ workspace_reduce A k num
                @ workspace_finish A k num) s (L_tile m (k + 1))"
proof -
  have "(\<Sum>n = 1..<k + 1. stale_workspace A r s (L_tile m n) * stale_workspace A r s (H_tile PlasmaLower A n k))
      = (\<Sum>n = 1..<k + 1. s (L_tile m n) * s (H_tile PlasmaLower A n k))"
  proof (rule sum.cong[OF refl])
    fix n assume "n \<in> {1..<k + 1}"
    then have "n < 2 * d_mt A" using assms(3,4) by simp
    then show "stale_workspace A r s (L_tile m n) * stale_workspace A r s (H_tile PlasmaLower A n k)
        = s (L_tile m n) * s (H_tile PlasmaLower A n k)"
      by (simp add: stale_workspace_other L_tile_def H_tile_def)
  qed
  moreover have "stale_workspace A r s (L_tile m (k + 1)) = s (L_tile m (k + 1))"
    by (simp add: stale_workspace_other L_tile_def)
  ultimately show ?thesis
    by (simp only: run_update_workspace_value[OF assms])
qed


section \<open>The off-diagonal stage within a column\<close>

lemma lower_column_starts_with_offdiagonals:
  assumes "lower_column A T W plasma k = Inr ts"
  shows "\<exists>post. ts = offdiagonals PlasmaLower A T k @ post"
  using assms unfolding lower_column_def
  by (auto simp: then_tasks_eq_Inr)

lemma offdiagonals_contains:
  assumes "1 \<le> m" "m < k"
  shows "\<exists>pre post. offdiagonals uplo A T k = pre @ offdiagonal_H uplo A T k m @ post"
proof -
  have "[1..<k] = [1..<m] @ [m..<k]"
    using assms upt_add_eq_append[of 1 m "k - m"] by simp
  then have "[1..<k] = [1..<m] @ m # [Suc m..<k]"
    using assms(2) by (simp add: upt_conv_Cons)
  then have "offdiagonals uplo A T k
      = concat (map (offdiagonal_H uplo A T k) [1..<m]) @ offdiagonal_H uplo A T k m
        @ concat (map (offdiagonal_H uplo A T k) [Suc m..<k])"
    by (simp add: offdiagonals_def)
  then show ?thesis by blast
qed

section \<open>The rounds of the tournament\<close>

lemma tournament_unfold:
  "0 < R \<Longrightarrow> tournament R num_players skip bracket_tasks =
     concat (map (\<lambda>bracket. bracket_tasks (skip * bracket) (skip * bracket + skip div 2))
                 [0..<num_players div 2])
     @ tournament (R - 1) ((num_players + 1) div 2) (2 * skip) bracket_tasks"
  by (cases R) simp_all

text \<open>
  The tournament as a list of rounds: round \<open>r\<close> (counted from \<open>0\<close>) has
  \<open>skip * 2\<^sup>r\<close> as its stride, and its number of players is the initial number halved
  \<open>r\<close> times, odd numbers rounded up.
\<close>

lemma tournament_rounds_skip:
  "tournament R np skip body =
     concat (map (\<lambda>r. concat (map (\<lambda>b. body (skip * 2 ^ r * b)
                                              (skip * 2 ^ r * b + skip * 2 ^ r div 2))
                                   [0..<((\<lambda>n. (n + 1) div 2) ^^ r) np div 2]))
                 [0..<R])"
proof (induction R arbitrary: np skip)
  case 0
  show ?case by simp
next
  case (Suc R)
  have upt: "[0..<Suc R] = 0 # map Suc [0..<R]"
    by (simp only: upt_conv_Cons[of 0 "Suc R"] map_Suc_upt zero_less_Suc)
  have pl: "((\<lambda>n. (n + 1) div 2) ^^ r) ((np + 1) div 2) = ((\<lambda>n. (n + 1) div 2) ^^ Suc r) np"
    for r by (simp only: funpow_Suc_right o_apply)
  have sk: "2 * skip * 2 ^ r = skip * 2 ^ Suc r" for r
    by simp
  have "tournament (Suc R) np skip body =
      concat (map (\<lambda>b. body (skip * b) (skip * b + skip div 2)) [0..<np div 2])
      @ tournament R ((np + 1) div 2) (2 * skip) body"
    by simp
  also have "tournament R ((np + 1) div 2) (2 * skip) body =
      concat (map (\<lambda>r. concat (map (\<lambda>b. body (skip * 2 ^ Suc r * b)
                                              (skip * 2 ^ Suc r * b + skip * 2 ^ Suc r div 2))
                                   [0..<((\<lambda>n. (n + 1) div 2) ^^ Suc r) np div 2]))
                 [0..<R])"
    by (simp only: Suc.IH pl sk)
  finally show ?case
    unfolding upt by (simp add: o_def)
qed

lemma tournament_rounds:
  "tournament R P 2 body =
     concat (map (\<lambda>r. concat (map (\<lambda>b. body (2 ^ (r + 1) * b) (2 ^ (r + 1) * b + 2 ^ r))
                                   [0..<((\<lambda>n. (n + 1) div 2) ^^ r) P div 2]))
                 [0..<R])"
  by (simp add: tournament_rounds_skip)

text \<open>\<open>num_rounds P\<close> is the least \<open>r\<close> with \<open>P \<le> 2\<^sup>r\<close>.\<close>

lemma num_rounds_least:
  assumes "1 \<le> P"
  shows "P \<le> 2 ^ num_rounds P" "P \<le> 2 ^ r \<Longrightarrow> num_rounds P \<le> r"
  using assms ceillog2_le_iff[of P "num_rounds P"] ceillog2_le_iff[of P r]
  by (simp_all add: num_rounds_def)

lemma num_rounds_small:
  "num_rounds 0 = 0" "num_rounds (Suc 0) = 0" "num_rounds 2 = 1" "num_rounds 3 = 2"
  "num_rounds 5 = 3"
  unfolding num_rounds_def by code_simp+


section \<open>Evaluation of the example data\<close>

lemma example_A_simps [simp]:
  "d_m example_A = 8" "d_n example_A = 8" "d_mb example_A = 2" "d_nb example_A = 2"
  "d_mt example_A = 4" "d_nt example_A = 4"
  by (simp_all add: example_A_def)

lemma example_store_W3 [simp]: "example_store (W3_tile example_A i) = int i + 112"
  by (simp add: example_store_def W3_tile_def)

lemma example_store_W4 [simp]: "example_store (W4_tile example_A i) = int i + 112"
  by (simp add: example_store_def W4_tile_def)

lemma example_T_simps [simp]:
  "d_mb example_T = 2"
  by (simp_all add: example_T_def)

lemma example_W_simps [simp]:
  "d_mt example_W = 17" "tot example_A example_W = 5"
  by (simp_all add: example_W_def tot_def)

lemma example_tile_sizes [simp]:
  "plasma_tile_mview example_A k = min 2 (8 - k * 2)"
  "plasma_tile_mmain example_A k = min 2 (8 - k * 2)"
  "plasma_tile_nmain example_A k = min 2 (8 - k * 2)"
  by (simp_all add: plasma_tile_mview_def plasma_tile_mmain_def plasma_tile_nmain_def)

lemma example_store_tiles [simp]:
  "example_store (TileA i j) = int (10 * i + j + 1)"
  "example_store (TileT i j) = int (3 * i + j + 2)"
  "example_store (TileW i j) = int i + 100"
  by (simp_all add: example_store_def)

lemma example_plasma_simps [simp]:
  "ctx_ib example_plasma = 1" "ctx_num_panel_threads example_plasma = 2"
  "ctx_max_threads example_plasma = 8"
  by (simp_all add: example_plasma_def)

lemma example_kernels_simps [simp]:
  "k_conj example_kernels x = x"
  "k_zlacpy example_kernels uplo m n a b = a"
  "k_zhegst example_kernels itype uplo n a b = a + b"
  "k_zlaset example_kernels uplo m n alpha beta a = 1"
  "k_ztrsm example_kernels side uplo ta diag m n alpha a b = b - a"
  "k_expand example_kernels n a = 2 * a"
  "k_view example_kernels t s = s"
  by (simp_all add: example_kernels_def)

lemma example_store_simps [simp]:
  "example_store (A_tile i j) = int (10 * i + j + 1)"
  "example_store (L_tile i j) = int (10 * i + (j - 1) + 1)"
  "example_store (T_tile i j) = int (3 * i + j + 2)"
  "example_store (W_tile i) = int i + 100"
  "example_store (H_tile PlasmaLower example_A i j) = int i + 104"
  by (simp_all add: example_store_def A_tile_def L_tile_def T_tile_def W_tile_def H_tile_def
      W2_tile_def)

lemma example_P_simps [simp]:
  "d_m example_P = 7" "d_n example_P = 7" "d_mb example_P = 2" "d_nb example_P = 2"
  "d_mt example_P = 4" "d_nt example_P = 4"
  by (simp_all add: example_P_def)

lemma example_P_tot [simp]:
  "tot example_P example_W = 5"
  by (simp add: tot_def)

lemma example_P_tile_sizes [simp]:
  "plasma_tile_mview example_P k = min 2 (7 - k * 2)"
  "plasma_tile_mmain example_P k = min 2 (7 - k * 2)"
  by (simp_all add: plasma_tile_mview_def plasma_tile_mmain_def)

lemma example_P_store [simp]:
  "example_store (W3_tile example_P i) = int i + 112"
  "example_store (W4_tile example_P i) = int i + 112"
  "example_store (H_tile PlasmaLower example_P i j) = int i + 104"
  by (simp_all add: example_store_def W3_tile_def W4_tile_def H_tile_def W2_tile_def)

lemma example_W1_simps [simp]:
  "d_mt example_W1 = 13" "tot example_P example_W1 = 1" "tot example_A example_W1 = 1"
  by (simp_all add: example_W1_def tot_def)

lemma stale_workspace_simps [simp]:
  "stale_workspace A r s (TileA i j) = s (TileA i j)"
  "stale_workspace A r s (TileT i j) = s (TileT i j)"
  "stale_workspace A r s (TileW i j) = (if j = 0 \<and> 3 * d_mt A \<le> i then r (TileW i j) else s (TileW i j))"
  by (simp_all add: stale_workspace_def)

text \<open>The tasks of column \<open>0\<close> on the example with partial tiles.\<close>

lemma first_column_tasks:
  "lower_column example_P example_T example_W example_plasma 0 =
     Inr [core_omp_zlacpy PlasmaLower 2 2 (TileA 0 0) 2 (TileT 0 0) 2,
          omp_taskwait,
          expand_full (TileT 0 0) 2 2,
          core_omp_zgeadd PlasmaNoTrans 2 2 zone (TileW 12 0) 2 zone (TileA 1 0) 2,
          core_omp_zgeadd PlasmaNoTrans 2 2 zone (TileW 12 0) 2 zone (TileA 2 0) 2,
          core_omp_zgeadd PlasmaNoTrans 1 2 zone (TileW 12 0) 2 zone (TileA 3 0) 1,
          omp_taskwait,
          core_zgetrf 2 0 5 2 1 1 2,
          omp_taskwait,
          ipiv_shift 1 2 2,
          omp_taskwait,
          core_omp_zlaswp_sym PlasmaLower 3 4 1,
          core_omp_zlacpy PlasmaUpper 2 2 (TileA 1 0) 2 (TileT 1 0) 2,
          core_omp_zlaset PlasmaUpper 2 2 0 0 2 2 zzero zone (TileA 1 0),
          omp_taskwait,
          conj_transpose (TileT 0 1) 2 (TileT 1 0) 2 2 2]"
  by (simp add: lower_column_def offdiagonals_def diagonal_def diagonal_copy_def
      symmetric_solve_def H_kk_first_def H_kk_second_def column_update_def update_workspace_def
      workspace_accumulate_def workspace_reduce_def workspace_finish_def
      panel_factorization_def apply_pivoting_def band_finalize_def
      plasma_tile_nmain_def Let_def imin_def c_div_def num_rounds_small upt_conv_Cons
      A_tile_def T_tile_def L_tile_def W4_tile_def)


section \<open>The claims\<close>

text \<open>
  \<^bold>\<open>C2\<close> (tournament reduction). For every slot count \<open>P \<ge> 1\<close> and every initial
  contents of the slots, the tournament loop leaves in slot \<open>0\<close> the sum of the \<open>P\<close>
  initial slot values. The statement covers both copies of the loop and spells them out:
  \<^item> over the slots \<open>W3(0..P-1)\<close> of the diagonal block, a bracket is one
    \<open>core_omp_zgeadd\<close> of \<open>mvak \<times> mvak\<close> elements, \<open>W3(m1) := W3(m2) + W3(m1)\<close>;
  \<^item> over the slots \<open>W4((m-k-1)*P + (0..P-1))\<close> of every tile row \<open>m\<close> of the column update,
    a bracket is one \<open>core_omp_zgeadd\<close> of \<open>mvam \<times> mvak\<close> elements per row;
  \<^item> the number of rounds is the least \<open>r\<close> with \<open>P \<le> 2\<^sup>r\<close>, that is \<open>\<lceil>log\<^sub>2 P\<rceil>\<close>;
  \<^item> round \<open>r\<close> (counted from \<open>0\<close>) runs the brackets \<open>b\<close> on the pairs
    \<open>(2\<^sup>r\<^sup>+\<^sup>1 * b, 2\<^sup>r\<^sup>+\<^sup>1 * b + 2\<^sup>r)\<close>, for \<open>b\<close> below half the number of players, which is
    \<open>P\<close> halved \<open>r\<close> times with odd numbers rounded up.
  The parity of the number of players in a round plays no role: there is no hypothesis on
  it.
\<close>

theorem tournament_reduction_sum:
  fixes s :: "tile \<Rightarrow> 'a::ring_1"
  assumes "1 \<le> P"
  shows "diagonal_reduce A k P =
           tournament (num_rounds P) P 2
             (\<lambda>m1 m2. [core_omp_zgeadd PlasmaNoTrans
                          (plasma_tile_mview A k) (plasma_tile_mview A k)
                          zone (W3_tile A m2) (d_mb A) zone (W3_tile A m1) (d_mb A)]) \<and>
         workspace_reduce A k P =
           tournament (num_rounds P) P 2
             (\<lambda>m1 m2. map (\<lambda>m. core_omp_zgeadd PlasmaNoTrans
                                   (plasma_tile_mview A m) (plasma_tile_mview A k)
                                   zone (W4_tile A ((m - k - 1) * P + m2)) (d_mb A)
                                   zone (W4_tile A ((m - k - 1) * P + m1)) (d_mb A))
                            [k + 1..<d_mt A]) \<and>
         P \<le> 2 ^ num_rounds P \<and> (\<forall>r. P \<le> 2 ^ r \<longrightarrow> num_rounds P \<le> r) \<and>
         tournament (num_rounds P) P 2 bracket_tasks =
           concat (map (\<lambda>r. concat (map (\<lambda>b. bracket_tasks (2 ^ (r + 1) * b)
                                                            (2 ^ (r + 1) * b + 2 ^ r))
                                         [0..<((\<lambda>n. (n + 1) div 2) ^^ r) P div 2]))
                       [0..<num_rounds P]) \<and>
         run K (diagonal_reduce A k P) s (W3_tile A 0) = (\<Sum>i<P. s (W3_tile A i)) \<and>
         (\<forall>m. k < m \<and> m < d_mt A \<longrightarrow>
            run K (workspace_reduce A k P) s (W4_tile A ((m - k - 1) * P))
            = (\<Sum>i<P. s (W4_tile A ((m - k - 1) * P + i))))"
proof (intro conjI allI impI)
  show "diagonal_reduce A k P =
           tournament (num_rounds P) P 2
             (\<lambda>m1 m2. [core_omp_zgeadd PlasmaNoTrans
                          (plasma_tile_mview A k) (plasma_tile_mview A k)
                          zone (W3_tile A m2) (d_mb A) zone (W3_tile A m1) (d_mb A)])"
  proof -
    have "diagonal_bracket A k =
        (\<lambda>m1 m2. [core_omp_zgeadd PlasmaNoTrans (plasma_tile_mview A k) (plasma_tile_mview A k)
                      zone (W3_tile A m2) (d_mb A) zone (W3_tile A m1) (d_mb A)])"
      by (intro ext) (simp add: diagonal_bracket_def Let_def)
    then show ?thesis
      by (simp only: diagonal_reduce_def)
  qed
next
  show "workspace_reduce A k P =
           tournament (num_rounds P) P 2
             (\<lambda>m1 m2. map (\<lambda>m. core_omp_zgeadd PlasmaNoTrans
                                   (plasma_tile_mview A m) (plasma_tile_mview A k)
                                   zone (W4_tile A ((m - k - 1) * P + m2)) (d_mb A)
                                   zone (W4_tile A ((m - k - 1) * P + m1)) (d_mb A))
                            [k + 1..<d_mt A])"
  proof -
    have "workspace_bracket A k P =
        (\<lambda>m1 m2. map (\<lambda>m. core_omp_zgeadd PlasmaNoTrans
                               (plasma_tile_mview A m) (plasma_tile_mview A k)
                               zone (W4_tile A ((m - k - 1) * P + m2)) (d_mb A)
                               zone (W4_tile A ((m - k - 1) * P + m1)) (d_mb A))
                        [k + 1..<d_mt A])"
      by (intro ext) (simp add: workspace_bracket_def Let_def)
    then show ?thesis
      by (simp only: workspace_reduce_def)
  qed
next
  show "P \<le> 2 ^ num_rounds P"
    using assms by (rule num_rounds_least)
next
  fix r assume "P \<le> 2 ^ r"
  with assms show "num_rounds P \<le> r"
    by (rule num_rounds_least)
next
  show "tournament (num_rounds P) P 2 bracket_tasks =
           concat (map (\<lambda>r. concat (map (\<lambda>b. bracket_tasks (2 ^ (r + 1) * b)
                                                            (2 ^ (r + 1) * b + 2 ^ r))
                                         [0..<((\<lambda>n. (n + 1) div 2) ^^ r) P div 2]))
                       [0..<num_rounds P])"
    by (rule tournament_rounds)
next
  show "run K (diagonal_reduce A k P) s (W3_tile A 0) = (\<Sum>i<P. s (W3_tile A i))"
    using assms by (rule run_diagonal_reduce)
next
  fix m assume "k < m \<and> m < d_mt A"
  then show "run K (workspace_reduce A k P) s (W4_tile A ((m - k - 1) * P))
            = (\<Sum>i<P. s (W4_tile A ((m - k - 1) * P + i)))"
    using assms by (intro run_workspace_reduce) simp_all
qed

theorem tournament_reduction_sum_witness:
  "(1::nat) \<le> 5 \<and>
   diagonal_reduce example_P 3 5 =
     [core_omp_zgeadd PlasmaNoTrans 1 1 zone (TileW 13 0) 2 zone (TileW 12 0) 2,
      core_omp_zgeadd PlasmaNoTrans 1 1 zone (TileW 15 0) 2 zone (TileW 14 0) 2,
      core_omp_zgeadd PlasmaNoTrans 1 1 zone (TileW 14 0) 2 zone (TileW 12 0) 2,
      core_omp_zgeadd PlasmaNoTrans 1 1 zone (TileW 16 0) 2 zone (TileW 12 0) 2] \<and>
   workspace_reduce example_P 1 5 =
     [core_omp_zgeadd PlasmaNoTrans 2 2 zone (TileW 13 0) 2 zone (TileW 12 0) 2,
      core_omp_zgeadd PlasmaNoTrans 1 2 zone (TileW 18 0) 2 zone (TileW 17 0) 2,
      core_omp_zgeadd PlasmaNoTrans 2 2 zone (TileW 15 0) 2 zone (TileW 14 0) 2,
      core_omp_zgeadd PlasmaNoTrans 1 2 zone (TileW 20 0) 2 zone (TileW 19 0) 2,
      core_omp_zgeadd PlasmaNoTrans 2 2 zone (TileW 14 0) 2 zone (TileW 12 0) 2,
      core_omp_zgeadd PlasmaNoTrans 1 2 zone (TileW 19 0) 2 zone (TileW 17 0) 2,
      core_omp_zgeadd PlasmaNoTrans 2 2 zone (TileW 16 0) 2 zone (TileW 12 0) 2,
      core_omp_zgeadd PlasmaNoTrans 1 2 zone (TileW 21 0) 2 zone (TileW 17 0) 2] \<and>
   (5::nat) \<le> 2 ^ num_rounds 5 \<and> (5::nat) \<le> 2 ^ 3 \<and> num_rounds 5 \<le> 3 \<and>
   run example_kernels (diagonal_reduce example_P 3 5) example_store (W3_tile example_P 0) = 570 \<and>
   (1::nat) < 3 \<and> 3 < d_mt example_P \<and>
   run example_kernels (workspace_reduce example_P 1 5) example_store (W4_tile example_P 5) = 595"
proof -
  have P: "(1::nat) \<le> 5" by simp
  have sums: "(\<Sum>i<5::nat. int i + 112) = 570" "(\<Sum>i<5::nat. int (5 + i) + 112) = 595"
    by (simp_all add: eval_nat_numeral)
  note ev = num_rounds_small tournament_unfold upt_conv_Cons W3_tile_def W4_tile_def
  note th = tournament_reduction_sum[OF P, where s = example_store and K = example_kernels
      and A = example_P]
  have d: "diagonal_reduce example_P 3 5 =
     [core_omp_zgeadd PlasmaNoTrans 1 1 zone (TileW 13 0) 2 zone (TileW 12 0) 2,
      core_omp_zgeadd PlasmaNoTrans 1 1 zone (TileW 15 0) 2 zone (TileW 14 0) 2,
      core_omp_zgeadd PlasmaNoTrans 1 1 zone (TileW 14 0) 2 zone (TileW 12 0) 2,
      core_omp_zgeadd PlasmaNoTrans 1 1 zone (TileW 16 0) 2 zone (TileW 12 0) 2]"
    unfolding th[where k = 3, THEN conjunct1] by (simp add: ev)
  have w: "workspace_reduce example_P 1 5 =
     [core_omp_zgeadd PlasmaNoTrans 2 2 zone (TileW 13 0) 2 zone (TileW 12 0) 2,
      core_omp_zgeadd PlasmaNoTrans 1 2 zone (TileW 18 0) 2 zone (TileW 17 0) 2,
      core_omp_zgeadd PlasmaNoTrans 2 2 zone (TileW 15 0) 2 zone (TileW 14 0) 2,
      core_omp_zgeadd PlasmaNoTrans 1 2 zone (TileW 20 0) 2 zone (TileW 19 0) 2,
      core_omp_zgeadd PlasmaNoTrans 2 2 zone (TileW 14 0) 2 zone (TileW 12 0) 2,
      core_omp_zgeadd PlasmaNoTrans 1 2 zone (TileW 19 0) 2 zone (TileW 17 0) 2,
      core_omp_zgeadd PlasmaNoTrans 2 2 zone (TileW 16 0) 2 zone (TileW 12 0) 2,
      core_omp_zgeadd PlasmaNoTrans 1 2 zone (TileW 21 0) 2 zone (TileW 17 0) 2]"
    unfolding th[where k = 1, THEN conjunct2, THEN conjunct1] by (simp add: ev)
  have r1: "(5::nat) \<le> 2 ^ num_rounds 5"
    using th[where k = 3] by blast
  have "\<forall>r. (5::nat) \<le> 2 ^ r \<longrightarrow> num_rounds 5 \<le> r"
    using th[where k = 3] by blast
  then have "(5::nat) \<le> 2 ^ 3 \<longrightarrow> num_rounds 5 \<le> 3"
    by (rule spec)
  then have r2: "num_rounds 5 \<le> 3"
    by simp
  have "run example_kernels (diagonal_reduce example_P 3 5) example_store
        (W3_tile example_P 0) = (\<Sum>i<5. example_store (W3_tile example_P i))"
    using th[where k = 3] by blast
  then have a: "run example_kernels (diagonal_reduce example_P 3 5) example_store
        (W3_tile example_P 0) = 570"
    using sums by simp
  have "\<forall>m. 1 < m \<and> m < d_mt example_P \<longrightarrow>
          run example_kernels (workspace_reduce example_P 1 5) example_store
            (W4_tile example_P ((m - 1 - 1) * 5))
          = (\<Sum>i<5. example_store (W4_tile example_P ((m - 1 - 1) * 5 + i)))"
    using th[where k = 1] by blast
  then have "1 < (3::nat) \<and> 3 < d_mt example_P \<longrightarrow>
          run example_kernels (workspace_reduce example_P 1 5) example_store
            (W4_tile example_P ((3 - 1 - 1) * 5))
          = (\<Sum>i<5. example_store (W4_tile example_P ((3 - 1 - 1) * 5 + i)))"
    by (rule spec)
  then have b: "run example_kernels (workspace_reduce example_P 1 5) example_store
        (W4_tile example_P 5) = 595"
    using sums by simp
  show ?thesis
    using P d w r1 r2 a b by simp
qed

text \<open>
  \<^bold>\<open>C3\<close> (multiply chain before the congruence reduction). The claim asks for the chain
  \<open>W(0) = L(k,k) * T(k,k-1)\<close>, \<open>T(k,k) -= W(0) * L(k,k-1)\<^sup>H\<close> at every column \<open>k > 0\<close>. The
  routine guards it with \<open>k > 1\<close>: at \<open>k = 1\<close> the stage is the reduction alone
  (\<open>L(1,0)\<close> is no tile of \<open>A\<close>). As amended: for \<open>k > 1\<close> the stage is the chain followed by
  \<open>core_omp_zhegst\<close>, a taskwait and the expansion, and \<open>core_omp_zhegst\<close> receives
  \<open>T(k,k) - (L(k,k) * T(k,k-1)) * L(k,k-1)\<^sup>H\<close>; for \<open>k = 1\<close> it receives \<open>T(1,1)\<close> as the
  diagonal stage left it; for \<open>k = 0\<close> the stage is empty.
\<close>

theorem congruence_multiply_chain:
  fixes s :: "tile \<Rightarrow> 'a::ring_1"
  shows "symmetric_solve A T k =
           (if k > 1 then multiply_chain A T k @ congruence_reduction A T k
            else if k = 1 then congruence_reduction A T k
            else []) \<and>
         run K (symmetric_solve A T k) s (T_tile k k) =
           (if k > 1 then
              k_expand K (plasma_tile_mview A k)
                (k_zhegst K 1 PlasmaLower (plasma_tile_mview A k)
                   (s (T_tile k k)
                    - (s (L_tile k k) * s (T_tile k (k - 1))) * k_conj K (s (L_tile k (k - 1))))
                   (s (L_tile k k)))
            else if k = 1 then
              k_expand K (plasma_tile_mview A k)
                (k_zhegst K 1 PlasmaLower (plasma_tile_mview A k)
                   (s (T_tile k k)) (s (L_tile k k)))
            else s (T_tile k k))"
  by (simp add: symmetric_solve_cases run_multiply_chain run_congruence_reduction
      L_tile_def T_tile_def W_tile_def)

theorem congruence_multiply_chain_witness:
  "symmetric_solve example_A example_T 2 =
     [core_omp_zgemm PlasmaNoTrans PlasmaNoTrans 2 2 2 zone (TileA 2 1) 2 (TileT 2 1) 2
        zzero (TileW 0 0) 2,
      core_omp_zgemm PlasmaNoTrans PlasmaConjTrans 2 2 2 zmone (TileW 0 0) 2 (TileA 2 0) 2
        zone (TileT 2 2) 2,
      core_omp_zhegst 1 PlasmaLower 2 (TileT 2 2) 2 (TileA 2 1) 2,
      omp_taskwait,
      expand_full (TileT 2 2) 2 2] \<and>
   run example_kernels (symmetric_solve example_A example_T 2) example_store (T_tile 2 2)
     = 2 * ((10 - (22 * 9) * 21) + 22)"
  using congruence_multiply_chain[of example_A example_T 2 example_kernels example_store]
  by (simp add: multiply_chain_def congruence_reduction_def L_tile_def T_tile_def W_tile_def
      op_val_def)

theorem congruence_multiply_chain_counterexample:
  "symmetric_solve example_A example_T 1 =
     [core_omp_zhegst 1 PlasmaLower 2 (TileT 1 1) 2 (TileA 1 0) 2,
      omp_taskwait,
      expand_full (TileT 1 1) 2 2] \<and>
   symmetric_solve example_A example_T 1
     \<noteq> multiply_chain example_A example_T 1 @ congruence_reduction example_A example_T 1"
  by (simp add: symmetric_solve_def multiply_chain_def congruence_reduction_def
      L_tile_def T_tile_def W_tile_def)




text \<open>
  \<^bold>\<open>C5\<close> (diagonal block assembly). For a column \<open>k\<close> of the factorization and a
  workspace with at least one reduction slot, the stage returns its tasks. For \<open>k > 1\<close>,
  with \<open>num = min(tot, k-1)\<close>, they are
  \<^item> for every \<open>m = 1 .. k-1\<close> one \<open>core_omp_zgemm\<close> of \<open>mvak \<times> mvak\<close> elements with inner
    dimension \<open>mvam\<close>, which writes \<open>- L(k,m) * H(m,k)\<close> into the slot \<open>W3((m-1) mod num)\<close>,
    with \<open>beta = zzero\<close> for \<open>m \<le> num\<close> and \<open>beta = zone\<close> after;
  \<^item> the tournament over the \<open>num\<close> slots;
  \<^item> the copy of the lower triangle of \<open>A(k,k)\<close> into \<open>T(k,k)\<close> and the addition of the
    slot \<open>W3(0)\<close> to \<open>T(k,k)\<close>.
  After the multiplications the slot \<open>j\<close> holds the sum of \<open>- L(k,m) * H(m,k)\<close> over the
  \<open>m\<close> with \<open>(m-1) mod num = j\<close>, whatever it held before, and the stage leaves in
  \<open>T(k,k)\<close> the lower copy of \<open>A(k,k)\<close> minus the sum of \<open>L(k,m) * H(m,k)\<close> over
  \<open>m = 1 .. k-1\<close>. For \<open>k \<le> 1\<close> the tasks are the copy, a taskwait and the expansion to a
  full tile: no multiplication, no addition.
\<close>

theorem diagonal_block_assembly:
  fixes s :: "tile \<Rightarrow> 'a::ring_1"
  assumes "k < d_mt A" and "1 \<le> tot A W"
  shows "\<exists>ts. diagonal PlasmaLower A T W k = Inr ts \<and>
     (if k > 1 then
        (let num = nat (imin (tot A W) (int k - 1))
         in ts = map (\<lambda>m. core_omp_zgemm PlasmaNoTrans PlasmaNoTrans
                          (plasma_tile_mview A k) (plasma_tile_mview A k) (plasma_tile_mview A m)
                          zmone (L_tile k m) (plasma_tile_mmain A k)
                          (H_tile PlasmaLower A m k) (d_mb A)
                          (if m < num + 1 then zzero else zone)
                          (W3_tile A ((m - 1) mod num)) (d_mb A))
                     [1..<k]
                 @ tournament (num_rounds num) num 2
                     (\<lambda>m1 m2. [core_omp_zgeadd PlasmaNoTrans
                                  (plasma_tile_mview A k) (plasma_tile_mview A k)
                                  zone (W3_tile A m2) (d_mb A) zone (W3_tile A m1) (d_mb A)])
                 @ [core_omp_zlacpy PlasmaLower (plasma_tile_mview A k) (plasma_tile_mview A k)
                      (A_tile k k) (plasma_tile_mmain A k) (T_tile k k) (d_mb T),
                    core_omp_zgeadd PlasmaNoTrans (plasma_tile_mview A k) (plasma_tile_mview A k)
                      zone (W3_tile A 0) (d_mb A) zone (T_tile k k) (d_mb T)] \<and>
            ts = diagonal_accumulate PlasmaLower A k num @ diagonal_reduce A k num
                 @ diagonal_finish A T k \<and>
            (\<forall>j < num.
               run K (diagonal_accumulate PlasmaLower A k num) s (W3_tile A j)
               = (\<Sum>m = 1..<k. if (m - 1) mod num = j
                                then - (s (L_tile k m) * s (H_tile PlasmaLower A m k)) else 0)) \<and>
            run K ts s (T_tile k k)
              = k_zlacpy K PlasmaLower (plasma_tile_mview A k) (plasma_tile_mview A k)
                  (s (A_tile k k)) (s (T_tile k k))
                - (\<Sum>m = 1..<k. s (L_tile k m) * s (H_tile PlasmaLower A m k)))
      else
        ts = [core_omp_zlacpy PlasmaLower (plasma_tile_mview A k) (plasma_tile_mview A k)
                (A_tile k k) (plasma_tile_mmain A k) (T_tile k k) (d_mb T),
              omp_taskwait,
              expand_full (T_tile k k) (plasma_tile_mview A k) (d_mb T)] \<and>
        run K ts s (T_tile k k)
          = k_expand K (plasma_tile_mview A k)
              (k_zlacpy K PlasmaLower (plasma_tile_mview A k) (plasma_tile_mview A k)
                 (s (A_tile k k)) (s (T_tile k k))))"
proof (cases "k > 1")
  case True
  let ?num = "nat (imin (tot A W) (int k - 1))"
  let ?ts = "diagonal_accumulate PlasmaLower A k ?num @ diagonal_reduce A k ?num
             @ diagonal_finish A T k"
  have pos: "0 < imin (tot A W) (int k - 1)"
    using True assms(2) by (simp add: imin_def)
  then have num: "0 < ?num" "?num < k"
    using True by (auto simp: imin_def)
  have k2: "k \<le> 2 * d_mt A" using assms(1) by simp
  have d: "diagonal PlasmaLower A T W k = Inr ?ts"
    using True pos by (simp add: diagonal_def Let_def)
  have calls: "?ts = map (\<lambda>m. core_omp_zgemm PlasmaNoTrans PlasmaNoTrans
                          (plasma_tile_mview A k) (plasma_tile_mview A k) (plasma_tile_mview A m)
                          zmone (L_tile k m) (plasma_tile_mmain A k)
                          (H_tile PlasmaLower A m k) (d_mb A)
                          (if m < ?num + 1 then zzero else zone)
                          (W3_tile A ((m - 1) mod ?num)) (d_mb A))
                     [1..<k]
                 @ tournament (num_rounds ?num) ?num 2
                     (\<lambda>m1 m2. [core_omp_zgeadd PlasmaNoTrans
                                  (plasma_tile_mview A k) (plasma_tile_mview A k)
                                  zone (W3_tile A m2) (d_mb A) zone (W3_tile A m1) (d_mb A)])
                 @ [core_omp_zlacpy PlasmaLower (plasma_tile_mview A k) (plasma_tile_mview A k)
                      (A_tile k k) (plasma_tile_mmain A k) (T_tile k k) (d_mb T),
                    core_omp_zgeadd PlasmaNoTrans (plasma_tile_mview A k) (plasma_tile_mview A k)
                      zone (W3_tile A 0) (d_mb A) zone (T_tile k k) (d_mb T)]"
  proof -
    have acc: "diagonal_accumulate PlasmaLower A k ?num =
        map (\<lambda>m. core_omp_zgemm PlasmaNoTrans PlasmaNoTrans
                   (plasma_tile_mview A k) (plasma_tile_mview A k) (plasma_tile_mview A m)
                   zmone (L_tile k m) (plasma_tile_mmain A k)
                   (H_tile PlasmaLower A m k) (d_mb A)
                   (if m < ?num + 1 then zzero else zone)
                   (W3_tile A ((m - 1) mod ?num)) (d_mb A))
            [1..<k]"
      by (simp add: diagonal_accumulate_def diagonal_gemm_def Let_def)
    have "diagonal_bracket A k =
        (\<lambda>m1 m2. [core_omp_zgeadd PlasmaNoTrans (plasma_tile_mview A k) (plasma_tile_mview A k)
                      zone (W3_tile A m2) (d_mb A) zone (W3_tile A m1) (d_mb A)])"
      by (intro ext) (simp add: diagonal_bracket_def Let_def)
    then have red: "diagonal_reduce A k ?num =
        tournament (num_rounds ?num) ?num 2
          (\<lambda>m1 m2. [core_omp_zgeadd PlasmaNoTrans (plasma_tile_mview A k) (plasma_tile_mview A k)
                        zone (W3_tile A m2) (d_mb A) zone (W3_tile A m1) (d_mb A)])"
      by (simp only: diagonal_reduce_def)
    have fin: "diagonal_finish A T k =
        [core_omp_zlacpy PlasmaLower (plasma_tile_mview A k) (plasma_tile_mview A k)
           (A_tile k k) (plasma_tile_mmain A k) (T_tile k k) (d_mb T),
         core_omp_zgeadd PlasmaNoTrans (plasma_tile_mview A k) (plasma_tile_mview A k)
           zone (W3_tile A 0) (d_mb A) zone (T_tile k k) (d_mb T)]"
      by (simp add: diagonal_finish_def Let_def)
    show ?thesis
      by (simp only: acc red fin)
  qed
  have slots: "\<forall>j < ?num.
               run K (diagonal_accumulate PlasmaLower A k ?num) s (W3_tile A j)
               = (\<Sum>m = 1..<k. if (m - 1) mod ?num = j
                                then - (s (L_tile k m) * s (H_tile PlasmaLower A m k)) else 0)"
    using run_diagonal_accumulate_slot[OF num k2] by blast
  have val: "run K ?ts s (T_tile k k)
              = k_zlacpy K PlasmaLower (plasma_tile_mview A k) (plasma_tile_mview A k)
                  (s (A_tile k k)) (s (T_tile k k))
                - (\<Sum>m = 1..<k. s (L_tile k m) * s (H_tile PlasmaLower A m k))"
    using num k2 by (rule run_diagonal_sum)
  show ?thesis
    unfolding Let_def
    apply (rule exI[of _ ?ts])
    apply (simp only: True if_True)
    apply (intro conjI)
        apply (rule d)
       apply (rule calls)
      apply (rule refl)
     apply (rule slots)
    apply (rule val)
    done
next
  case False
  then have "diagonal PlasmaLower A T W k = Inr (diagonal_copy A T k)"
    by (simp add: diagonal_def)
  then show ?thesis
    using False run_diagonal_copy[of K A T k s]
    by (simp add: diagonal_copy_def Let_def)
qed

theorem diagonal_block_assembly_witness:
  "3 < d_mt example_P \<and> 1 \<le> tot example_P example_W \<and>
   (\<exists>ts. diagonal PlasmaLower example_P example_T example_W 3 = Inr ts \<and>
      ts = [core_omp_zgemm PlasmaNoTrans PlasmaNoTrans 1 1 2 zmone (TileA 3 0) 1 (TileW 5 0) 2
              zzero (TileW 12 0) 2,
            core_omp_zgemm PlasmaNoTrans PlasmaNoTrans 1 1 2 zmone (TileA 3 1) 1 (TileW 6 0) 2
              zzero (TileW 13 0) 2,
            core_omp_zgeadd PlasmaNoTrans 1 1 zone (TileW 13 0) 2 zone (TileW 12 0) 2,
            core_omp_zlacpy PlasmaLower 1 1 (TileA 3 3) 1 (TileT 3 3) 2,
            core_omp_zgeadd PlasmaNoTrans 1 1 zone (TileW 12 0) 2 zone (TileT 3 3) 2] \<and>
      run example_kernels (diagonal_accumulate PlasmaLower example_P 3 2) example_store
        (W3_tile example_P 1) = - 3392 \<and>
      run example_kernels ts example_store (T_tile 3 3) = - 6613) \<and>
   1 \<le> tot example_P example_W1 \<and>
   (\<exists>ts. diagonal PlasmaLower example_P example_T example_W1 3 = Inr ts \<and>
      ts = [core_omp_zgemm PlasmaNoTrans PlasmaNoTrans 1 1 2 zmone (TileA 3 0) 1 (TileW 5 0) 2
              zzero (TileW 12 0) 2,
            core_omp_zgemm PlasmaNoTrans PlasmaNoTrans 1 1 2 zmone (TileA 3 1) 1 (TileW 6 0) 2
              zone (TileW 12 0) 2,
            core_omp_zlacpy PlasmaLower 1 1 (TileA 3 3) 1 (TileT 3 3) 2,
            core_omp_zgeadd PlasmaNoTrans 1 1 zone (TileW 12 0) 2 zone (TileT 3 3) 2] \<and>
      run example_kernels (diagonal_accumulate PlasmaLower example_P 3 1) example_store
        (W3_tile example_P 0) = - 6647 \<and>
      run example_kernels ts example_store (T_tile 3 3) = - 6613) \<and>
   1 < d_mt example_P \<and>
   (\<exists>ts. diagonal PlasmaLower example_P example_T example_W 1 = Inr ts \<and>
      ts = [core_omp_zlacpy PlasmaLower 2 2 (TileA 1 1) 2 (TileT 1 1) 2, omp_taskwait,
            expand_full (TileT 1 1) 2 2] \<and>
      run example_kernels ts example_store (T_tile 1 1) = 24)"
proof -
  have h: "3 < d_mt example_P" "1 < d_mt example_P" "1 \<le> tot example_P example_W"
    "1 \<le> tot example_P example_W1"
    by simp_all
  have k: "(3::nat) > 1" by simp
  have num: "nat (imin (tot example_P example_W) (int 3 - 1)) = 2"
    "nat (imin (tot example_P example_W1) (int 3 - 1)) = 1"
    by (simp_all add: imin_def)
  have sums: "(\<Sum>m = Suc 0..<3. (a::nat \<Rightarrow> int) m) = a 1 + a 2"
    for a by (simp add: eval_nat_numeral)
  note ev = num_rounds_small tournament_unfold upt_conv_Cons
    A_tile_def T_tile_def L_tile_def H_tile_def W2_tile_def W3_tile_def
  obtain ts where d: "diagonal PlasmaLower example_P example_T example_W 3 = Inr ts"
    and calls: "ts = map (\<lambda>m. core_omp_zgemm PlasmaNoTrans PlasmaNoTrans
                          (plasma_tile_mview example_P 3) (plasma_tile_mview example_P 3)
                          (plasma_tile_mview example_P m)
                          zmone (L_tile 3 m) (plasma_tile_mmain example_P 3)
                          (H_tile PlasmaLower example_P m 3) (d_mb example_P)
                          (if m < 2 + 1 then zzero else zone)
                          (W3_tile example_P ((m - 1) mod 2)) (d_mb example_P))
                     [1..<3]
                 @ tournament (num_rounds 2) 2 2
                     (\<lambda>m1 m2. [core_omp_zgeadd PlasmaNoTrans
                                  (plasma_tile_mview example_P 3) (plasma_tile_mview example_P 3)
                                  zone (W3_tile example_P m2) (d_mb example_P)
                                  zone (W3_tile example_P m1) (d_mb example_P)])
                 @ [core_omp_zlacpy PlasmaLower (plasma_tile_mview example_P 3)
                      (plasma_tile_mview example_P 3)
                      (A_tile 3 3) (plasma_tile_mmain example_P 3) (T_tile 3 3) (d_mb example_T),
                    core_omp_zgeadd PlasmaNoTrans (plasma_tile_mview example_P 3)
                      (plasma_tile_mview example_P 3)
                      zone (W3_tile example_P 0) (d_mb example_P) zone (T_tile 3 3)
                      (d_mb example_T)]"
    and slots: "\<forall>j < 2.
               run example_kernels (diagonal_accumulate PlasmaLower example_P 3 2) example_store
                 (W3_tile example_P j)
               = (\<Sum>m = 1..<3. if (m - 1) mod 2 = j
                                then - (example_store (L_tile 3 m)
                                        * example_store (H_tile PlasmaLower example_P m 3))
                                else 0)"
    and val: "run example_kernels ts example_store (T_tile 3 3)
              = k_zlacpy example_kernels PlasmaLower (plasma_tile_mview example_P 3)
                  (plasma_tile_mview example_P 3)
                  (example_store (A_tile 3 3)) (example_store (T_tile 3 3))
                - (\<Sum>m = 1..<3. example_store (L_tile 3 m)
                                  * example_store (H_tile PlasmaLower example_P m 3))"
    using diagonal_block_assembly[OF h(1,3), of example_T example_kernels example_store,
        unfolded Let_def num if_P[OF k]]
    by blast
  have lit: "ts = [core_omp_zgemm PlasmaNoTrans PlasmaNoTrans 1 1 2 zmone (TileA 3 0) 1 (TileW 5 0) 2
              zzero (TileW 12 0) 2,
            core_omp_zgemm PlasmaNoTrans PlasmaNoTrans 1 1 2 zmone (TileA 3 1) 1 (TileW 6 0) 2
              zzero (TileW 13 0) 2,
            core_omp_zgeadd PlasmaNoTrans 1 1 zone (TileW 13 0) 2 zone (TileW 12 0) 2,
            core_omp_zlacpy PlasmaLower 1 1 (TileA 3 3) 1 (TileT 3 3) 2,
            core_omp_zgeadd PlasmaNoTrans 1 1 zone (TileW 12 0) 2 zone (TileT 3 3) 2]"
    unfolding calls by (simp add: ev)
  have s1: "run example_kernels (diagonal_accumulate PlasmaLower example_P 3 2) example_store
        (W3_tile example_P 1) = - 3392"
    using slots[rule_format, of 1] by (simp add: sums)
  have v: "run example_kernels ts example_store (T_tile 3 3) = - 6613"
    using val by (simp add: sums)
  have a: "\<exists>ts. diagonal PlasmaLower example_P example_T example_W 3 = Inr ts \<and>
      ts = [core_omp_zgemm PlasmaNoTrans PlasmaNoTrans 1 1 2 zmone (TileA 3 0) 1 (TileW 5 0) 2
              zzero (TileW 12 0) 2,
            core_omp_zgemm PlasmaNoTrans PlasmaNoTrans 1 1 2 zmone (TileA 3 1) 1 (TileW 6 0) 2
              zzero (TileW 13 0) 2,
            core_omp_zgeadd PlasmaNoTrans 1 1 zone (TileW 13 0) 2 zone (TileW 12 0) 2,
            core_omp_zlacpy PlasmaLower 1 1 (TileA 3 3) 1 (TileT 3 3) 2,
            core_omp_zgeadd PlasmaNoTrans 1 1 zone (TileW 12 0) 2 zone (TileT 3 3) 2] \<and>
      run example_kernels (diagonal_accumulate PlasmaLower example_P 3 2) example_store
        (W3_tile example_P 1) = - 3392 \<and>
      run example_kernels ts example_store (T_tile 3 3) = - 6613"
    using d lit s1 v by blast
  obtain us where d': "diagonal PlasmaLower example_P example_T example_W1 3 = Inr us"
    and calls': "us = map (\<lambda>m. core_omp_zgemm PlasmaNoTrans PlasmaNoTrans
                          (plasma_tile_mview example_P 3) (plasma_tile_mview example_P 3)
                          (plasma_tile_mview example_P m)
                          zmone (L_tile 3 m) (plasma_tile_mmain example_P 3)
                          (H_tile PlasmaLower example_P m 3) (d_mb example_P)
                          (if m < 1 + 1 then zzero else zone)
                          (W3_tile example_P ((m - 1) mod 1)) (d_mb example_P))
                     [1..<3]
                 @ tournament (num_rounds 1) 1 2
                     (\<lambda>m1 m2. [core_omp_zgeadd PlasmaNoTrans
                                  (plasma_tile_mview example_P 3) (plasma_tile_mview example_P 3)
                                  zone (W3_tile example_P m2) (d_mb example_P)
                                  zone (W3_tile example_P m1) (d_mb example_P)])
                 @ [core_omp_zlacpy PlasmaLower (plasma_tile_mview example_P 3)
                      (plasma_tile_mview example_P 3)
                      (A_tile 3 3) (plasma_tile_mmain example_P 3) (T_tile 3 3) (d_mb example_T),
                    core_omp_zgeadd PlasmaNoTrans (plasma_tile_mview example_P 3)
                      (plasma_tile_mview example_P 3)
                      zone (W3_tile example_P 0) (d_mb example_P) zone (T_tile 3 3)
                      (d_mb example_T)]"
    and slots': "\<forall>j < 1.
               run example_kernels (diagonal_accumulate PlasmaLower example_P 3 1) example_store
                 (W3_tile example_P j)
               = (\<Sum>m = 1..<3. if (m - 1) mod 1 = j
                                then - (example_store (L_tile 3 m)
                                        * example_store (H_tile PlasmaLower example_P m 3))
                                else 0)"
    and val': "run example_kernels us example_store (T_tile 3 3)
              = k_zlacpy example_kernels PlasmaLower (plasma_tile_mview example_P 3)
                  (plasma_tile_mview example_P 3)
                  (example_store (A_tile 3 3)) (example_store (T_tile 3 3))
                - (\<Sum>m = 1..<3. example_store (L_tile 3 m)
                                  * example_store (H_tile PlasmaLower example_P m 3))"
    using diagonal_block_assembly[OF h(1,4), of example_T example_kernels example_store,
        unfolded Let_def num if_P[OF k]]
    by blast
  have lit': "us = [core_omp_zgemm PlasmaNoTrans PlasmaNoTrans 1 1 2 zmone (TileA 3 0) 1 (TileW 5 0) 2
              zzero (TileW 12 0) 2,
            core_omp_zgemm PlasmaNoTrans PlasmaNoTrans 1 1 2 zmone (TileA 3 1) 1 (TileW 6 0) 2
              zone (TileW 12 0) 2,
            core_omp_zlacpy PlasmaLower 1 1 (TileA 3 3) 1 (TileT 3 3) 2,
            core_omp_zgeadd PlasmaNoTrans 1 1 zone (TileW 12 0) 2 zone (TileT 3 3) 2]"
    unfolding calls' by (simp add: ev)
  have s1': "run example_kernels (diagonal_accumulate PlasmaLower example_P 3 1) example_store
        (W3_tile example_P 0) = - 6647"
    using slots'[rule_format, of 0] by (simp add: sums)
  have v': "run example_kernels us example_store (T_tile 3 3) = - 6613"
    using val' by (simp add: sums)
  have b: "\<exists>ts. diagonal PlasmaLower example_P example_T example_W1 3 = Inr ts \<and>
      ts = [core_omp_zgemm PlasmaNoTrans PlasmaNoTrans 1 1 2 zmone (TileA 3 0) 1 (TileW 5 0) 2
              zzero (TileW 12 0) 2,
            core_omp_zgemm PlasmaNoTrans PlasmaNoTrans 1 1 2 zmone (TileA 3 1) 1 (TileW 6 0) 2
              zone (TileW 12 0) 2,
            core_omp_zlacpy PlasmaLower 1 1 (TileA 3 3) 1 (TileT 3 3) 2,
            core_omp_zgeadd PlasmaNoTrans 1 1 zone (TileW 12 0) 2 zone (TileT 3 3) 2] \<and>
      run example_kernels (diagonal_accumulate PlasmaLower example_P 3 1) example_store
        (W3_tile example_P 0) = - 6647 \<and>
      run example_kernels ts example_store (T_tile 3 3) = - 6613"
    using d' lit' s1' v' by blast
  have c: "\<exists>ts. diagonal PlasmaLower example_P example_T example_W 1 = Inr ts \<and>
      ts = [core_omp_zlacpy PlasmaLower 2 2 (TileA 1 1) 2 (TileT 1 1) 2, omp_taskwait,
            expand_full (TileT 1 1) 2 2] \<and>
      run example_kernels ts example_store (T_tile 1 1) = 24"
    using diagonal_block_assembly[OF h(2,3), of example_T example_kernels example_store]
    by (simp add: A_tile_def T_tile_def)
  show ?thesis
    using h a b c by blast
qed

text \<open>
  \<^bold>\<open>C6\<close> (the two column-update strategies). The claim is that both branches leave
  \<open>L(m,k+1) - \<Sum>\<^sub>n L(m,n) * H(n,k)\<close> in \<open>L(m,k+1)\<close> for every column \<open>k\<close>. For \<open>k \<ge> 1\<close> they
  do (lemma \<open>column_update_paths_agree\<close>). At \<open>k = 0\<close> the workspace branch computes
  \<open>num = 0\<close>, submits no multiplication and no tournament addition, and then adds the slot
  \<open>W4(0)\<close>, which nothing has written, into every \<open>L(m,1)\<close>; the direct branch submits
  nothing (lemma \<open>update_workspace_first_column\<close>). The theorem evaluates both branches
  on the example data: \<open>A.mt = 4 < 8 = max_threads\<close>, so the routine takes the workspace
  branch, and \<open>L(1,1)\<close> becomes \<open>11 + 112\<close> instead of \<open>11\<close>.
\<close>

theorem column_update_first_column_diverges:
  "column_update PlasmaLower example_A example_W example_plasma 0 =
     Inr [core_omp_zgeadd PlasmaNoTrans 2 2 zone (TileW 12 0) 2 zone (TileA 1 0) 2,
          core_omp_zgeadd PlasmaNoTrans 2 2 zone (TileW 12 0) 2 zone (TileA 2 0) 2,
          core_omp_zgeadd PlasmaNoTrans 2 2 zone (TileW 12 0) 2 zone (TileA 3 0) 2] \<and>
   update_direct PlasmaLower example_A 0 = [] \<and>
   example_store (L_tile 1 1) = 11 \<and>
   run example_kernels
     [core_omp_zgeadd PlasmaNoTrans 2 2 zone (TileW 12 0) 2 zone (TileA 1 0) 2,
      core_omp_zgeadd PlasmaNoTrans 2 2 zone (TileW 12 0) 2 zone (TileA 2 0) 2,
      core_omp_zgeadd PlasmaNoTrans 2 2 zone (TileW 12 0) 2 zone (TileA 3 0) 2]
     example_store (L_tile 1 1) = 123 \<and>
   run example_kernels (update_direct PlasmaLower example_A 0) example_store (L_tile 1 1) = 11"
  by (simp add: column_update_def update_workspace_def update_direct_def Let_def imin_def c_div_def
      workspace_accumulate_def workspace_reduce_def workspace_finish_def num_rounds_def
      W4_tile_def L_tile_def op_val_def upt_conv_Cons)

text \<open>
  \<^bold>\<open>C7\<close> (band finalization). For every column \<open>k\<close> the stage is, in this order: the copy
  of the upper triangle of \<open>L(k+1,k+1)\<close> into \<open>T(k+1,k)\<close>; \<open>core_omp_zlaset\<close> on the upper
  triangle of \<open>L(k+1,k+1)\<close> with \<open>zzero\<close> off the diagonal and \<open>zone\<close> on it; if \<open>k > 0\<close>,
  the triangular solve of \<open>T(k+1,k)\<close> from the right with the unit lower \<open>L(k,k)\<close>,
  conjugate-transposed; a taskwait and \<open>T(k,k+1) = T(k+1,k)\<^sup>H\<close>. When \<open>k+1 < A.nt\<close> these
  are the last tasks of column \<open>k\<close>. In values: the copy reads \<open>L(k+1,k+1)\<close> as it was
  before \<open>core_omp_zlaset\<close>, the solve works on the copy, and the mirror is taken of the
  final \<open>T(k+1,k)\<close>.
\<close>

theorem band_finalization_order:
  fixes s :: "tile \<Rightarrow> 'a::ring_1"
  shows
   "band_finalize A T k =
      [core_omp_zlacpy PlasmaUpper (plasma_tile_mview A (k + 1)) (plasma_tile_mview A k)
         (L_tile (k + 1) (k + 1)) (plasma_tile_mmain A (k + 1)) (T_tile (k + 1) k) (d_mb A),
       core_omp_zlaset PlasmaUpper (plasma_tile_mmain A (k + 1)) (plasma_tile_nmain A k) 0 0
         (plasma_tile_mview A (k + 1)) (plasma_tile_mview A k) zzero zone (L_tile (k + 1) (k + 1))]
      @ (if k > 0 then
           [core_omp_ztrsm PlasmaRight PlasmaLower PlasmaConjTrans PlasmaUnit
              (plasma_tile_mview A (k + 1)) (plasma_tile_mview A k)
              zone (L_tile k k) (plasma_tile_mmain A k) (T_tile (k + 1) k) (d_mb A)]
         else [])
      @ [omp_taskwait,
         conj_transpose (T_tile k (k + 1)) (d_mb T) (T_tile (k + 1) k) (d_mb A)
           (plasma_tile_mview A (k + 1)) (plasma_tile_mview A k)] \<and>
    (\<forall>ts. k + 1 < d_nt A \<and> lower_column A T W plasma k = Inr ts \<longrightarrow>
          (\<exists>pre. ts = pre @ band_finalize A T k)) \<and>
    run K (band_finalize A T k) s (T_tile (k + 1) k) =
      (if k > 0 then
         k_ztrsm K PlasmaRight PlasmaLower PlasmaConjTrans PlasmaUnit
           (plasma_tile_mview A (k + 1)) (plasma_tile_mview A k) zone (s (L_tile k k))
           (k_zlacpy K PlasmaUpper (plasma_tile_mview A (k + 1)) (plasma_tile_mview A k)
              (s (L_tile (k + 1) (k + 1))) (s (T_tile (k + 1) k)))
       else
         k_zlacpy K PlasmaUpper (plasma_tile_mview A (k + 1)) (plasma_tile_mview A k)
           (s (L_tile (k + 1) (k + 1))) (s (T_tile (k + 1) k))) \<and>
    run K (band_finalize A T k) s (L_tile (k + 1) (k + 1)) =
      k_zlaset K PlasmaUpper (plasma_tile_mview A (k + 1)) (plasma_tile_mview A k) zzero zone
        (s (L_tile (k + 1) (k + 1))) \<and>
    run K (band_finalize A T k) s (T_tile k (k + 1)) =
      k_conj K (run K (band_finalize A T k) s (T_tile (k + 1) k))"
proof (intro conjI allI impI)
  show "band_finalize A T k =
      [core_omp_zlacpy PlasmaUpper (plasma_tile_mview A (k + 1)) (plasma_tile_mview A k)
         (L_tile (k + 1) (k + 1)) (plasma_tile_mmain A (k + 1)) (T_tile (k + 1) k) (d_mb A),
       core_omp_zlaset PlasmaUpper (plasma_tile_mmain A (k + 1)) (plasma_tile_nmain A k) 0 0
         (plasma_tile_mview A (k + 1)) (plasma_tile_mview A k) zzero zone (L_tile (k + 1) (k + 1))]
      @ (if k > 0 then
           [core_omp_ztrsm PlasmaRight PlasmaLower PlasmaConjTrans PlasmaUnit
              (plasma_tile_mview A (k + 1)) (plasma_tile_mview A k)
              zone (L_tile k k) (plasma_tile_mmain A k) (T_tile (k + 1) k) (d_mb A)]
         else [])
      @ [omp_taskwait,
         conj_transpose (T_tile k (k + 1)) (d_mb T) (T_tile (k + 1) k) (d_mb A)
           (plasma_tile_mview A (k + 1)) (plasma_tile_mview A k)]"
    by (simp add: band_finalize_def Let_def)
next
  fix ts assume "k + 1 < d_nt A \<and> lower_column A T W plasma k = Inr ts"
  then show "\<exists>pre. ts = pre @ band_finalize A T k"
    using lower_column_ends_with_band_finalize by blast
next
  show "run K (band_finalize A T k) s (T_tile (k + 1) k) =
      (if k > 0 then
         k_ztrsm K PlasmaRight PlasmaLower PlasmaConjTrans PlasmaUnit
           (plasma_tile_mview A (k + 1)) (plasma_tile_mview A k) zone (s (L_tile k k))
           (k_zlacpy K PlasmaUpper (plasma_tile_mview A (k + 1)) (plasma_tile_mview A k)
              (s (L_tile (k + 1) (k + 1))) (s (T_tile (k + 1) k)))
       else
         k_zlacpy K PlasmaUpper (plasma_tile_mview A (k + 1)) (plasma_tile_mview A k)
           (s (L_tile (k + 1) (k + 1))) (s (T_tile (k + 1) k)))"
    by (simp add: band_finalize_def Let_def L_tile_def T_tile_def)
next
  show "run K (band_finalize A T k) s (L_tile (k + 1) (k + 1)) =
      k_zlaset K PlasmaUpper (plasma_tile_mview A (k + 1)) (plasma_tile_mview A k) zzero zone
        (s (L_tile (k + 1) (k + 1)))"
    by (simp add: band_finalize_def Let_def L_tile_def T_tile_def)
next
  show "run K (band_finalize A T k) s (T_tile k (k + 1)) =
      k_conj K (run K (band_finalize A T k) s (T_tile (k + 1) k))"
    by (simp add: band_finalize_def Let_def L_tile_def T_tile_def)
qed

theorem band_finalization_order_witness:
  "1 + 1 < d_nt example_A \<and>
   (\<exists>ts pre. lower_column example_A example_T example_W example_plasma 1 = Inr ts \<and>
      ts = pre @ band_finalize example_A example_T 1) \<and>
   band_finalize example_A example_T 1 =
     [core_omp_zlacpy PlasmaUpper 2 2 (TileA 2 1) 2 (TileT 2 1) 2,
      core_omp_zlaset PlasmaUpper 2 2 0 0 2 2 zzero zone (TileA 2 1),
      core_omp_ztrsm PlasmaRight PlasmaLower PlasmaConjTrans PlasmaUnit 2 2 zone (TileA 1 0) 2
        (TileT 2 1) 2,
      omp_taskwait,
      conj_transpose (TileT 1 2) 2 (TileT 2 1) 2 2 2] \<and>
   run example_kernels (band_finalize example_A example_T 1) example_store (T_tile 2 1) = 11 \<and>
   run example_kernels (band_finalize example_A example_T 1) example_store (L_tile 2 2) = 1 \<and>
   run example_kernels (band_finalize example_A example_T 1) example_store (T_tile 1 2) = 11"
proof -
  have nt: "1 + 1 < d_nt example_A" by simp
  have "\<not> isl (lower_column example_A example_T example_W example_plasma 1)"
    by (rule lower_column_returns) simp_all
  then obtain ts where ts: "lower_column example_A example_T example_W example_plasma 1 = Inr ts"
    by (cases "lower_column example_A example_T example_W example_plasma 1") simp_all
  note th = band_finalization_order[of example_A example_T 1 example_W example_plasma
      example_kernels example_store]
  have "\<exists>pre. ts = pre @ band_finalize example_A example_T 1"
    using th nt ts by blast
  then have a: "\<exists>ts pre. lower_column example_A example_T example_W example_plasma 1 = Inr ts \<and>
      ts = pre @ band_finalize example_A example_T 1"
    using ts by blast
  show ?thesis
    using th nt a by (simp add: L_tile_def T_tile_def)
qed

text \<open>
  \<^bold>\<open>C8\<close> (off-diagonal blocks). For \<open>1 \<le> m < k\<close> the stage submits for \<open>H(m,k)\<close>,
  as the first tasks of column \<open>k\<close>, the calls
  \<^item> \<open>H(m,k) := T(m,m) * L(k,m)\<^sup>H\<close>, of \<open>mvam \<times> mvak\<close> elements with inner dimension \<open>mvam\<close>
    and \<open>beta = zzero\<close>;
  \<^item> if \<open>m > 1\<close>, \<open>H(m,k) += T(m,m-1) * L(k,m-1)\<^sup>H\<close>, with inner dimension \<open>A.mb\<close>;
  \<^item> \<open>H(m,k) += T(m+1,m)\<^sup>H * L(k,m+1)\<^sup>H\<close>, with inner dimension \<open>mvamp1\<close>.
  After the stage \<open>H(m,k)\<close> holds the sum of these three products, all read from the store
  before the stage; the old contents of \<open>H(m,k)\<close> do not enter. The tiles of \<open>T\<close> that
  contribute are \<open>T(m,m)\<close>, \<open>T(m,m-1)\<close> and \<open>T(m+1,m)\<close>.
\<close>

theorem offdiagonal_blocks:
  assumes "1 \<le> m" and "m < k"
  shows "offdiagonal_H PlasmaLower A T k m =
           [core_omp_zgemm PlasmaNoTrans PlasmaConjTrans
              (plasma_tile_mview A m) (plasma_tile_mview A k) (plasma_tile_mview A m)
              zone (T_tile m m) (d_mb T) (L_tile k m) (plasma_tile_mmain A k)
              zzero (H_tile PlasmaLower A m k) (d_mb A)]
           @ (if m > 1 then
                [core_omp_zgemm PlasmaNoTrans PlasmaConjTrans
                   (plasma_tile_mview A m) (plasma_tile_mview A k) (d_mb A)
                   zone (T_tile m (m - 1)) (d_mb T) (L_tile k (m - 1)) (plasma_tile_mmain A k)
                   zone (H_tile PlasmaLower A m k) (d_mb A)]
              else [])
           @ [core_omp_zgemm PlasmaConjTrans PlasmaConjTrans
                (plasma_tile_mview A m) (plasma_tile_mview A k) (plasma_tile_mview A (m + 1))
                zone (T_tile (m + 1) m) (d_mb A) (L_tile k (m + 1)) (plasma_tile_mmain A k)
                zone (H_tile PlasmaLower A m k) (d_mb A)] \<and>
         (\<exists>pre post. offdiagonals PlasmaLower A T k
                        = pre @ offdiagonal_H PlasmaLower A T k m @ post) \<and>
         (\<forall>ts. lower_column A T W plasma k = Inr ts \<longrightarrow>
               (\<exists>post. ts = offdiagonals PlasmaLower A T k @ post)) \<and>
         run K (offdiagonals PlasmaLower A T k) s (H_tile PlasmaLower A m k) =
           s (T_tile m m) * k_conj K (s (L_tile k m))
           + (if m > 1 then s (T_tile m (m - 1)) * k_conj K (s (L_tile k (m - 1))) else 0)
           + k_conj K (s (T_tile (m + 1) m)) * k_conj K (s (L_tile k (m + 1)))"
proof (intro conjI allI impI)
  show "offdiagonal_H PlasmaLower A T k m =
           [core_omp_zgemm PlasmaNoTrans PlasmaConjTrans
              (plasma_tile_mview A m) (plasma_tile_mview A k) (plasma_tile_mview A m)
              zone (T_tile m m) (d_mb T) (L_tile k m) (plasma_tile_mmain A k)
              zzero (H_tile PlasmaLower A m k) (d_mb A)]
           @ (if m > 1 then
                [core_omp_zgemm PlasmaNoTrans PlasmaConjTrans
                   (plasma_tile_mview A m) (plasma_tile_mview A k) (d_mb A)
                   zone (T_tile m (m - 1)) (d_mb T) (L_tile k (m - 1)) (plasma_tile_mmain A k)
                   zone (H_tile PlasmaLower A m k) (d_mb A)]
              else [])
           @ [core_omp_zgemm PlasmaConjTrans PlasmaConjTrans
                (plasma_tile_mview A m) (plasma_tile_mview A k) (plasma_tile_mview A (m + 1))
                zone (T_tile (m + 1) m) (d_mb A) (L_tile k (m + 1)) (plasma_tile_mmain A k)
                zone (H_tile PlasmaLower A m k) (d_mb A)]"
    by (simp add: offdiagonal_H_def Let_def)
next
  show "\<exists>pre post. offdiagonals PlasmaLower A T k
                        = pre @ offdiagonal_H PlasmaLower A T k m @ post"
    using assms by (rule offdiagonals_contains)
next
  fix ts assume "lower_column A T W plasma k = Inr ts"
  then show "\<exists>post. ts = offdiagonals PlasmaLower A T k @ post"
    by (rule lower_column_starts_with_offdiagonals)
next
  have "m \<in> set [1..<k]" using assms by simp
  then have "run K (offdiagonals PlasmaLower A T k) s (W2_tile A m) = H_value K s k m"
    unfolding offdiagonals_def by (rule run_offdiagonals_at) simp
  then show "run K (offdiagonals PlasmaLower A T k) s (H_tile PlasmaLower A m k) =
           s (T_tile m m) * k_conj K (s (L_tile k m))
           + (if m > 1 then s (T_tile m (m - 1)) * k_conj K (s (L_tile k (m - 1))) else 0)
           + k_conj K (s (T_tile (m + 1) m)) * k_conj K (s (L_tile k (m + 1)))"
    by (simp add: H_tile_def H_value_def)
qed

theorem offdiagonal_blocks_witness:
  "(1::nat) \<le> 2 \<and> (2::nat) < 3 \<and>
   offdiagonal_H PlasmaLower example_P example_T 3 2 =
     [core_omp_zgemm PlasmaNoTrans PlasmaConjTrans 2 1 2 zone (TileT 2 2) 2 (TileA 3 1) 1
        zzero (TileW 6 0) 2,
      core_omp_zgemm PlasmaNoTrans PlasmaConjTrans 2 1 2 zone (TileT 2 1) 2 (TileA 3 0) 1
        zone (TileW 6 0) 2,
      core_omp_zgemm PlasmaConjTrans PlasmaConjTrans 2 1 1 zone (TileT 3 2) 2 (TileA 3 2) 1
        zone (TileW 6 0) 2] \<and>
   (\<exists>ts post. lower_column example_P example_T example_W example_plasma 3 = Inr ts \<and>
      ts = offdiagonals PlasmaLower example_P example_T 3 @ post) \<and>
   run example_kernels (offdiagonals PlasmaLower example_P example_T 3) example_store
     (H_tile PlasmaLower example_P 2 3) = 1028 \<and>
   (1::nat) \<le> 1 \<and> (1::nat) < 3 \<and>
   offdiagonal_H PlasmaLower example_P example_T 3 1 =
     [core_omp_zgemm PlasmaNoTrans PlasmaConjTrans 2 1 2 zone (TileT 1 1) 2 (TileA 3 0) 1
        zzero (TileW 5 0) 2,
      core_omp_zgemm PlasmaConjTrans PlasmaConjTrans 2 1 2 zone (TileT 2 1) 2 (TileA 3 1) 1
        zone (TileW 5 0) 2] \<and>
   run example_kernels (offdiagonals PlasmaLower example_P example_T 3) example_store
     (H_tile PlasmaLower example_P 1 3) = 474"
proof -
  have m2: "(1::nat) \<le> 2" "(2::nat) < 3" and m1: "(1::nat) \<le> 1" "(1::nat) < 3"
    by simp_all
  note a = offdiagonal_blocks[OF m2, of example_P example_T example_W example_plasma
      example_kernels example_store]
  note b = offdiagonal_blocks[OF m1, of example_P example_T example_W example_plasma
      example_kernels example_store]
  have "\<not> isl (lower_column example_P example_T example_W example_plasma 3)"
    by (rule lower_column_returns) simp_all
  then obtain ts where ts: "lower_column example_P example_T example_W example_plasma 3 = Inr ts"
    by (cases "lower_column example_P example_T example_W example_plasma 3") simp_all
  then have "\<exists>post. ts = offdiagonals PlasmaLower example_P example_T 3 @ post"
    using a by blast
  then have col: "\<exists>ts post. lower_column example_P example_T example_W example_plasma 3 = Inr ts \<and>
      ts = offdiagonals PlasmaLower example_P example_T 3 @ post"
    using ts by blast
  have l2: "offdiagonal_H PlasmaLower example_P example_T 3 2 =
     [core_omp_zgemm PlasmaNoTrans PlasmaConjTrans 2 1 2 zone (TileT 2 2) 2 (TileA 3 1) 1
        zzero (TileW 6 0) 2,
      core_omp_zgemm PlasmaNoTrans PlasmaConjTrans 2 1 2 zone (TileT 2 1) 2 (TileA 3 0) 1
        zone (TileW 6 0) 2,
      core_omp_zgemm PlasmaConjTrans PlasmaConjTrans 2 1 1 zone (TileT 3 2) 2 (TileA 3 2) 1
        zone (TileW 6 0) 2]"
    using a by (simp add: L_tile_def T_tile_def H_tile_def W2_tile_def)
  have l1: "offdiagonal_H PlasmaLower example_P example_T 3 1 =
     [core_omp_zgemm PlasmaNoTrans PlasmaConjTrans 2 1 2 zone (TileT 1 1) 2 (TileA 3 0) 1
        zzero (TileW 5 0) 2,
      core_omp_zgemm PlasmaConjTrans PlasmaConjTrans 2 1 2 zone (TileT 2 1) 2 (TileA 3 1) 1
        zone (TileW 5 0) 2]"
    using b by (simp add: L_tile_def T_tile_def H_tile_def W2_tile_def)
  have v2: "run example_kernels (offdiagonals PlasmaLower example_P example_T 3) example_store
     (H_tile PlasmaLower example_P 2 3) = 1028"
    using a by simp
  have v1: "run example_kernels (offdiagonals PlasmaLower example_P example_T 3) example_store
     (H_tile PlasmaLower example_P 1 3) = 474"
    using b by simp
  show ?thesis
    using col l1 l2 v1 v2 by simp
qed

text \<open>
  \<^bold>\<open>C9\<close> (the band of \<open>T\<close>). Every tile \<open>T(i,j)\<close> that a task of the \<open>PlasmaLower\<close>
  factorization names, as an input or as an output, has \<open>i = j\<close>, \<open>i = j + 1\<close> or
  \<open>j = i + 1\<close>. This holds for the tasks of the whole routine and for the tasks of any
  single column \<open>k\<close>, so also for the columns that complete before a fault.
\<close>

theorem band_factor_references:
  assumes "plasma_pzhetrf_aa PlasmaLower A T W plasma status = Inr ts
           \<or> lower_column A T W plasma k = Inr ts"
    and "t \<in> set ts" and "TileT i j \<in> set (task_tiles t)"
  shows "i = j \<or> i = j + 1 \<or> j = i + 1"
proof -
  have "\<forall>t \<in> set ts. band_task t"
    using assms(1)
  proof
    assume "plasma_pzhetrf_aa PlasmaLower A T W plasma status = Inr ts"
    then show ?thesis
      using band_column_loop by (auto simp: plasma_pzhetrf_aa_def split: if_splits)
  next
    assume "lower_column A T W plasma k = Inr ts"
    then show ?thesis
      by (rule band_lower_column)
  qed
  then show ?thesis
    using assms(2,3) by (auto simp: band_task_def)
qed

theorem band_factor_references_witness:
  "\<exists>ts. plasma_pzhetrf_aa PlasmaLower example_A example_T example_W example_plasma PlasmaSuccess
          = Inr ts \<and>
        core_omp_zlacpy PlasmaUpper 2 2 (TileA 2 1) 2 (TileT 2 1) 2 \<in> set ts \<and>
        TileT 2 1 \<in> set (task_tiles (core_omp_zlacpy PlasmaUpper 2 2 (TileA 2 1) 2 (TileT 2 1) 2)) \<and>
        ((2::nat) = 1 \<or> (2::nat) = 1 + 1 \<or> (1::nat) = 2 + 1)"
proof -
  obtain ts where ts:
    "plasma_pzhetrf_aa PlasmaLower example_A example_T example_W example_plasma PlasmaSuccess = Inr ts"
    using plasma_pzhetrf_aa_returns[of example_A example_W example_T example_plasma PlasmaSuccess]
    by auto
  have "set (band_finalize example_A example_T 1) \<subseteq> set ts"
    using ts by (rule band_finalize_submitted) simp_all
  moreover have "core_omp_zlacpy PlasmaUpper 2 2 (TileA 2 1) 2 (TileT 2 1) 2
      \<in> set (band_finalize example_A example_T 1)"
    by (simp add: band_finalize_def Let_def L_tile_def T_tile_def)
  ultimately have mem: "core_omp_zlacpy PlasmaUpper 2 2 (TileA 2 1) 2 (TileT 2 1) 2 \<in> set ts"
    by blast
  have til: "TileT 2 1 \<in> set (task_tiles (core_omp_zlacpy PlasmaUpper 2 2 (TileA 2 1) 2 (TileT 2 1) 2))"
    by simp
  have "(2::nat) = 1 \<or> (2::nat) = 1 + 1 \<or> (1::nat) = 2 + 1"
    using disjI1[OF ts] mem til by (rule band_factor_references)
  then show ?thesis
    using ts mem til by blast
qed

text \<open>
  \<^bold>\<open>C10\<close> (first write overwrites). The claim concludes that no contents left in the
  workspace ever enter an accumulated sum. For at least one slot this is so: in both loops
  a \<open>core_omp_zgemm\<close> has \<open>beta = zzero\<close> exactly when no earlier one wrote its slot (lemma
  \<open>accumulation_loops_fresh\<close>), and neither \<open>T(k,k)\<close> nor \<open>L(m,k+1)\<close> depends on what the
  slots held before (lemmas \<open>run_diagonal_sum_stale\<close>, \<open>run_update_workspace_stale\<close>). At
  column \<open>k = 0\<close> the workspace branch of the column update has \<open>num = 0\<close>: its loop
  submits no \<open>core_omp_zgemm\<close>, nothing writes the slot \<open>W4(0)\<close>, and the routine still
  adds \<open>W4(0)\<close> into every \<open>L(m,1)\<close>. The theorem evaluates column \<open>0\<close> of the routine on the
  example with partial tiles (\<open>A.mt = 4 < 8 = max_threads\<close>): with \<open>0\<close> left in the
  workspace \<open>L(2,1)\<close> stays \<open>21\<close>, with \<open>7\<close> left there it becomes \<open>28\<close>. For contrast, at
  column \<open>1\<close> the first write to each slot has \<open>beta = zzero\<close> and \<open>L(2,2)\<close> is the same for
  both workspaces.
\<close>

theorem stale_slot_enters_first_column:
  "(\<exists>ts. lower_column example_P example_T example_W example_plasma 0 = Inr ts \<and>
      ts = [core_omp_zlacpy PlasmaLower 2 2 (TileA 0 0) 2 (TileT 0 0) 2,
            omp_taskwait,
            expand_full (TileT 0 0) 2 2,
            core_omp_zgeadd PlasmaNoTrans 2 2 zone (TileW 12 0) 2 zone (TileA 1 0) 2,
            core_omp_zgeadd PlasmaNoTrans 2 2 zone (TileW 12 0) 2 zone (TileA 2 0) 2,
            core_omp_zgeadd PlasmaNoTrans 1 2 zone (TileW 12 0) 2 zone (TileA 3 0) 1,
            omp_taskwait,
            core_zgetrf 2 0 5 2 1 1 2,
            omp_taskwait,
            ipiv_shift 1 2 2,
            omp_taskwait,
            core_omp_zlaswp_sym PlasmaLower 3 4 1,
            core_omp_zlacpy PlasmaUpper 2 2 (TileA 1 0) 2 (TileT 1 0) 2,
            core_omp_zlaset PlasmaUpper 2 2 0 0 2 2 zzero zone (TileA 1 0),
            omp_taskwait,
            conj_transpose (TileT 0 1) 2 (TileT 1 0) 2 2 2] \<and>
      run example_kernels ts (stale_workspace example_P (\<lambda>t. 0) example_store) (L_tile 2 1) = 21 \<and>
      run example_kernels ts (stale_workspace example_P (\<lambda>t. 7) example_store) (L_tile 2 1) = 28) \<and>
   W4_tile example_P 0 = TileW 12 0 \<and>
   workspace_accumulate PlasmaLower example_P 0 0 = [] \<and>
   (\<exists>us. update_workspace PlasmaLower example_P example_W 1 = Inr us \<and>
      us = [core_omp_zgemm PlasmaNoTrans PlasmaNoTrans 2 2 2 zmone (TileA 2 0) 2 (TileW 5 0) 2
              zzero (TileW 12 0) 2,
            core_omp_zgemm PlasmaNoTrans PlasmaNoTrans 1 2 2 zmone (TileA 3 0) 1 (TileW 5 0) 2
              zzero (TileW 13 0) 2,
            core_omp_zgeadd PlasmaNoTrans 2 2 zone (TileW 12 0) 2 zone (TileA 2 1) 2,
            core_omp_zgeadd PlasmaNoTrans 1 2 zone (TileW 13 0) 2 zone (TileA 3 1) 1] \<and>
      run example_kernels us (stale_workspace example_P (\<lambda>t. 0) example_store) (L_tile 2 2)
        = - 2183 \<and>
      run example_kernels us (stale_workspace example_P (\<lambda>t. 7) example_store) (L_tile 2 2)
        = - 2183)"
proof (intro conjI)
  show "\<exists>ts. lower_column example_P example_T example_W example_plasma 0 = Inr ts \<and>
      ts = [core_omp_zlacpy PlasmaLower 2 2 (TileA 0 0) 2 (TileT 0 0) 2,
            omp_taskwait,
            expand_full (TileT 0 0) 2 2,
            core_omp_zgeadd PlasmaNoTrans 2 2 zone (TileW 12 0) 2 zone (TileA 1 0) 2,
            core_omp_zgeadd PlasmaNoTrans 2 2 zone (TileW 12 0) 2 zone (TileA 2 0) 2,
            core_omp_zgeadd PlasmaNoTrans 1 2 zone (TileW 12 0) 2 zone (TileA 3 0) 1,
            omp_taskwait,
            core_zgetrf 2 0 5 2 1 1 2,
            omp_taskwait,
            ipiv_shift 1 2 2,
            omp_taskwait,
            core_omp_zlaswp_sym PlasmaLower 3 4 1,
            core_omp_zlacpy PlasmaUpper 2 2 (TileA 1 0) 2 (TileT 1 0) 2,
            core_omp_zlaset PlasmaUpper 2 2 0 0 2 2 zzero zone (TileA 1 0),
            omp_taskwait,
            conj_transpose (TileT 0 1) 2 (TileT 1 0) 2 2 2] \<and>
      run example_kernels ts (stale_workspace example_P (\<lambda>t. 0) example_store) (L_tile 2 1) = 21 \<and>
      run example_kernels ts (stale_workspace example_P (\<lambda>t. 7) example_store) (L_tile 2 1) = 28"
    by (simp add: first_column_tasks L_tile_def op_val_def)
next
  show "W4_tile example_P 0 = TileW 12 0"
    by (simp add: W4_tile_def)
next
  show "workspace_accumulate PlasmaLower example_P 0 0 = []"
    by (simp add: workspace_accumulate_def)
next
  show "\<exists>us. update_workspace PlasmaLower example_P example_W 1 = Inr us \<and>
      us = [core_omp_zgemm PlasmaNoTrans PlasmaNoTrans 2 2 2 zmone (TileA 2 0) 2 (TileW 5 0) 2
              zzero (TileW 12 0) 2,
            core_omp_zgemm PlasmaNoTrans PlasmaNoTrans 1 2 2 zmone (TileA 3 0) 1 (TileW 5 0) 2
              zzero (TileW 13 0) 2,
            core_omp_zgeadd PlasmaNoTrans 2 2 zone (TileW 12 0) 2 zone (TileA 2 1) 2,
            core_omp_zgeadd PlasmaNoTrans 1 2 zone (TileW 13 0) 2 zone (TileA 3 1) 1] \<and>
      run example_kernels us (stale_workspace example_P (\<lambda>t. 0) example_store) (L_tile 2 2)
        = - 2183 \<and>
      run example_kernels us (stale_workspace example_P (\<lambda>t. 7) example_store) (L_tile 2 2)
        = - 2183"
    by (simp add: update_workspace_def workspace_accumulate_def workspace_gemm_def
        workspace_reduce_def workspace_finish_def Let_def imin_def c_div_def num_rounds_small
        upt_conv_Cons L_tile_def H_tile_def W2_tile_def W4_tile_def op_val_def)
qed

end
